theory Spec2Isabelle
  imports Complex_Main "HOL-Library.Word"
begin

section \<open>Data model (models/data-types)\<close>

text \<open>
  A JavaScript value of a row or of a metadata record. A key that is absent (or whose
  value is \<open>undefined\<close>) is \<open>None\<close> of the enclosing map. Numbers are the integers
  from \<open>-2\<^sup>5\<^sup>3\<close> to \<open>2\<^sup>5\<^sup>3 - 1\<close>, a signed word of 54 bits: each is a double, and
  its \<open>String\<close> is its decimal numeral. Ids are strings. A row is a map: its
  column names are taken to be outside the property names that every JavaScript object
  inherits.
\<close>

datatype jsval = JNull | JStr string | JNum "54 word" | JBool bool

type_synonym js_record = "string \<rightharpoonup> jsval"

record DataEntity =
  entity_id :: string
  entity_type :: string
  entity_label :: string
  entity_metadata :: js_record

record Relationship =
  rel_id :: string
  rel_source :: string
  rel_target :: string
  rel_type :: string
  rel_metadata :: js_record

record Dataset =
  entities :: "DataEntity list"
  relationships :: "Relationship list"

record path_metadata =
  md_length :: nat
  md_hops :: int

record path_info =
  nodes :: "string list"
  edges :: "string list"
  metadata :: path_metadata

record path_metrics =
  totalPaths :: nat
  shortestPathLength :: nat
  longestPathLength :: nat

record PathAnalysisResult =
  paths :: "path_info list"
  metrics :: path_metrics

record impact_metrics =
  totalImpactedNodes :: nat
  observedMaxDepth :: int
  criticalPaths :: nat

record ImpactAnalysisResult =
  directImpact :: "string list"
  indirectImpact :: "string list"
  impactMetrics :: impact_metrics

section \<open>Adjacency index (AnalysisService.buildAdjacencyMap)\<close>

text \<open>
  The adjacency map is a JavaScript object used as a dictionary from entity id to the
  edge lists of the entity. This section and the next three read it as the map of its
  own keys, and take the bounds as integers: the model of the runs that return, for
  integer bounds. The object with the properties it inherits, the \<open>TypeError\<close> that
  its construction throws and the bounds that are no integers follow below, with the
  proof that both models return the same results.
\<close>

record out_edge =
  target :: string
  edgeId :: string

record in_edge =
  source :: string
  in_edgeId :: string

record adj_entry =
  outgoing :: "out_edge list"
  incoming :: "in_edge list"

type_synonym adjacency = "string \<rightharpoonup> adj_entry"

definition initEntity :: "DataEntity \<Rightarrow> adjacency \<Rightarrow> adjacency" where
  "initEntity e m = m(entity_id e \<mapsto> \<lparr>outgoing = [], incoming = []\<rparr>)"

definition addOutgoing :: "Relationship \<Rightarrow> adjacency \<Rightarrow> adjacency" where
  "addOutgoing r m =
     (case m (rel_source r) of
        Some a \<Rightarrow> m(rel_source r \<mapsto>
                    a\<lparr>outgoing := outgoing a @ [\<lparr>target = rel_target r, edgeId = rel_id r\<rparr>]\<rparr>)
      | None \<Rightarrow> m)"

definition addIncoming :: "Relationship \<Rightarrow> adjacency \<Rightarrow> adjacency" where
  "addIncoming r m =
     (case m (rel_target r) of
        Some a \<Rightarrow> m(rel_target r \<mapsto>
                    a\<lparr>incoming := incoming a @ [\<lparr>source = rel_source r, in_edgeId = rel_id r\<rparr>]\<rparr>)
      | None \<Rightarrow> m)"

text \<open>One iteration of the relationship loop: an empty endpoint is falsy and skipped.\<close>

definition addRelationship :: "Relationship \<Rightarrow> adjacency \<Rightarrow> adjacency" where
  "addRelationship r m =
     (if rel_source r = [] \<or> rel_target r = [] then m
      else addIncoming r (addOutgoing r m))"

definition buildAdjacencyMap :: "Dataset \<Rightarrow> adjacency" where
  "buildAdjacencyMap ds =
     fold addRelationship (relationships ds) (fold initEntity (entities ds) Map.empty)"

text \<open>\<open>adjacencyMap[n]?.outgoing || []\<close>\<close>

definition outgoingOf :: "adjacency \<Rightarrow> string \<Rightarrow> out_edge list" where
  "outgoingOf adj n = (case adj n of None \<Rightarrow> [] | Some a \<Rightarrow> outgoing a)"

section \<open>Impact analysis (AnalysisService.analyzeImpact, findIndirectImpacts)\<close>

text \<open>
  The arrays and the set that both functions mutate are threaded as a record. Depths
  are integers.
\<close>

record impact_state =
  st_direct :: "string list"
  st_indirect :: "string list"
  st_visited :: "string set"
  st_critical :: "string list list"

text \<open>The loop over the outgoing edges of one layer node (it also fills \<open>nextLayer\<close>).\<close>

fun visitNeighbors :: "out_edge list \<Rightarrow> impact_state \<times> string list \<Rightarrow> impact_state \<times> string list" where
  "visitNeighbors [] acc = acc"
| "visitNeighbors (e # es) (st, nextLayer) =
     (if target e \<in> st_visited st then visitNeighbors es (st, nextLayer)
      else visitNeighbors es
             (st\<lparr>st_indirect := st_indirect st @ [target e],
                 st_visited := insert (target e) (st_visited st)\<rparr>,
              nextLayer @ [target e]))"

text \<open>The loop over the nodes of the current layer.\<close>

fun processLayer :: "adjacency \<Rightarrow> string list \<Rightarrow> string list \<Rightarrow> impact_state \<times> string list
                      \<Rightarrow> impact_state \<times> string list" where
  "processLayer adj currentPath [] acc = acc"
| "processLayer adj currentPath (nodeId # rest) (st, nextLayer) =
     (case adj nodeId of
        None \<Rightarrow> processLayer adj currentPath rest (st, nextLayer)
      | Some a \<Rightarrow>
          processLayer adj currentPath rest
            (visitNeighbors (outgoing a)
               (if length (outgoing a) > 5
                then st\<lparr>st_critical := st_critical st @ [currentPath @ [nodeId]]\<rparr>
                else st,
                nextLayer)))"

function findIndirectImpacts :: "adjacency \<Rightarrow> string list \<Rightarrow> impact_state \<Rightarrow> int \<Rightarrow> int
                                  \<Rightarrow> string list \<Rightarrow> impact_state" where
  "findIndirectImpacts adj currentLayer st currentDepth maxDepth currentPath =
     (if currentDepth \<ge> maxDepth then st
      else (case processLayer adj currentPath currentLayer (st, []) of
              (st', nextLayer) \<Rightarrow>
                if nextLayer \<noteq> []
                then findIndirectImpacts adj nextLayer st' (currentDepth + 1) maxDepth
                       (currentPath @ currentLayer)
                else st'))"
  by pat_completeness auto
termination
  by (relation "measure (\<lambda>(adj, layer, st, d, m, p). nat (m - d))") auto

text \<open>The loop over the direct neighbours of one source.\<close>

fun addDirect :: "out_edge list \<Rightarrow> impact_state \<Rightarrow> impact_state" where
  "addDirect [] st = st"
| "addDirect (e # es) st =
     (if target e \<in> st_visited st then addDirect es st
      else addDirect es
             (st\<lparr>st_direct := st_direct st @ [target e],
                 st_visited := insert (target e) (st_visited st)\<rparr>))"

text \<open>The loop over the sources: direct neighbours, then the indirect expansion of that source.\<close>

fun processSources :: "adjacency \<Rightarrow> int \<Rightarrow> string list \<Rightarrow> impact_state \<Rightarrow> impact_state" where
  "processSources adj maxDepth [] st = st"
| "processSources adj maxDepth (sourceId # rest) st =
     (case adj sourceId of
        None \<Rightarrow> processSources adj maxDepth rest st
      | Some a \<Rightarrow>
          processSources adj maxDepth rest
            (findIndirectImpacts adj (map target (outgoing a))
               (addDirect (outgoing a) st) 1 maxDepth [sourceId]))"

definition impactState :: "Dataset \<Rightarrow> string list \<Rightarrow> int \<Rightarrow> impact_state" where
  "impactState ds sourceIds maxDepth =
     processSources (buildAdjacencyMap ds) maxDepth sourceIds
       \<lparr>st_direct = [], st_indirect = [],
        st_visited = fold insert sourceIds {}, st_critical = []\<rparr>"

definition analyzeImpact :: "Dataset \<Rightarrow> string list \<Rightarrow> int \<Rightarrow> ImpactAnalysisResult" where
  "analyzeImpact ds sourceIds maxDepth =
     (let st = impactState ds sourceIds maxDepth in
      \<lparr>directImpact = st_direct st,
       indirectImpact = st_indirect st,
       impactMetrics =
         \<lparr>totalImpactedNodes = length (st_direct st) + length (st_indirect st),
          observedMaxDepth =
            (if length (st_critical st) > 0
             then Max (set (map (\<lambda>path. int (length path) - 1) (st_critical st)))
             else 0),
          criticalPaths = length (st_critical st)\<rparr>\<rparr>)"

section \<open>Path analysis (AnalysisService.findPaths, findAllPaths)\<close>

text \<open>
  \<open>findAllPaths\<close> is the recursive depth-first search and \<open>tryConnections\<close> its loop
  over the outgoing edges of the current node. The search pushes on \<open>currentPath\<close>,
  \<open>currentEdges\<close> and \<open>visited\<close> before the recursive call and pops after it, so the
  rest of the loop runs with the lists it started with; the list of found paths is
  returned. The length bound is an integer.
\<close>

function findAllPaths :: "adjacency \<Rightarrow> string \<Rightarrow> string \<Rightarrow> string list \<Rightarrow> string list
                           \<Rightarrow> string set \<Rightarrow> path_info list \<Rightarrow> int \<Rightarrow> path_info list"
  and tryConnections :: "adjacency \<Rightarrow> out_edge list \<Rightarrow> string \<Rightarrow> string list \<Rightarrow> string list
                           \<Rightarrow> string set \<Rightarrow> path_info list \<Rightarrow> int \<Rightarrow> path_info list" where
  "findAllPaths adj currentNode targetNode currentPath currentEdges visited allPaths maxLength =
     (if currentNode = targetNode
      then allPaths @
             [\<lparr>nodes = currentPath, edges = currentEdges,
               metadata = \<lparr>md_length = length currentPath,
                            md_hops = int (length currentPath) - 1\<rparr>\<rparr>]
      else if int (length currentPath) \<ge> maxLength then allPaths
      else tryConnections adj (outgoingOf adj currentNode) targetNode currentPath currentEdges
             visited allPaths maxLength)"
| "tryConnections adj [] targetNode currentPath currentEdges visited allPaths maxLength = allPaths"
| "tryConnections adj (edge # rest) targetNode currentPath currentEdges visited allPaths maxLength =
     (if target edge \<in> visited
      then tryConnections adj rest targetNode currentPath currentEdges visited allPaths maxLength
      else tryConnections adj rest targetNode currentPath currentEdges
             (insert (target edge) visited - {target edge})
             (findAllPaths adj (target edge) targetNode (currentPath @ [target edge])
                (currentEdges @ [edgeId edge]) (insert (target edge) visited) allPaths maxLength)
             maxLength)"
  by pat_completeness auto
termination
  by (relation "measures
        [\<lambda>x. case x of
                Inl (adj, c, t, p, es, v, a, m) \<Rightarrow> 2 * nat (m - int (length p))
              | Inr (adj, os, t, p, es, v, a, m) \<Rightarrow>
                  (if m - int (length p) \<le> 0 then 1 else 2 * nat (m - int (length p)) - 1),
         \<lambda>x. case x of
                Inl (adj, c, t, p, es, v, a, m) \<Rightarrow> 0
              | Inr (adj, os, t, p, es, v, a, m) \<Rightarrow> length os]")
     auto

text \<open>The loop over the targets for one source, and the loop over the sources.\<close>

fun pathsForTargets :: "adjacency \<Rightarrow> int \<Rightarrow> string \<Rightarrow> string list \<Rightarrow> path_info list
                         \<Rightarrow> path_info list" where
  "pathsForTargets adj maxLength sourceId [] allPaths = allPaths"
| "pathsForTargets adj maxLength sourceId (targetId # rest) allPaths =
     (if sourceId = targetId then pathsForTargets adj maxLength sourceId rest allPaths
      else if adj sourceId = None then pathsForTargets adj maxLength sourceId rest allPaths
      else if adj targetId = None then pathsForTargets adj maxLength sourceId rest allPaths
      else pathsForTargets adj maxLength sourceId rest
             (findAllPaths adj sourceId targetId [sourceId] [] {sourceId} allPaths maxLength))"

fun pathsForSources :: "adjacency \<Rightarrow> int \<Rightarrow> string list \<Rightarrow> string list \<Rightarrow> path_info list
                         \<Rightarrow> path_info list" where
  "pathsForSources adj maxLength [] targetIds allPaths = allPaths"
| "pathsForSources adj maxLength (sourceId # rest) targetIds allPaths =
     pathsForSources adj maxLength rest targetIds
       (pathsForTargets adj maxLength sourceId targetIds allPaths)"

definition findPaths :: "Dataset \<Rightarrow> string list \<Rightarrow> string list \<Rightarrow> int \<Rightarrow> PathAnalysisResult" where
  "findPaths ds sourceIds targetIds maxLength =
     (let ps = pathsForSources (buildAdjacencyMap ds) maxLength sourceIds targetIds [];
          pathLengths = map (\<lambda>path. length (nodes path)) ps
      in \<lparr>paths = ps,
          metrics =
            \<lparr>totalPaths = length ps,
             shortestPathLength = (if length ps \<noteq> 0 then Min (set pathLengths) else 0),
             longestPathLength = (if length ps \<noteq> 0 then Max (set pathLengths) else 0)\<rparr>\<rparr>)"

section \<open>Graph filter (GraphFilterService.filterDataset)\<close>

definition nodeIdsInPaths :: "path_info list \<Rightarrow> string set" where
  "nodeIdsInPaths ps = fold (\<lambda>path acc. fold insert (nodes path) acc) ps {}"

definition edgeIdsInPaths :: "path_info list \<Rightarrow> string set" where
  "edgeIdsInPaths ps = fold (\<lambda>path acc. fold insert (edges path) acc) ps {}"

definition filterDataset :: "Dataset \<Rightarrow> string list \<Rightarrow> string list \<Rightarrow> int \<Rightarrow> Dataset" where
  "filterDataset ds sourceIds targetIds maxDepth =
     (if length sourceIds = 0 \<and> length targetIds = 0 then ds
      else if length sourceIds > 0 \<and> length targetIds > 0 then
        (let pathResult = findPaths ds sourceIds targetIds maxDepth in
         \<lparr>entities =
            filter (\<lambda>entity. entity_id entity \<in> nodeIdsInPaths (paths pathResult)) (entities ds),
          relationships =
            filter (\<lambda>rel. rel_id rel \<in> edgeIdsInPaths (paths pathResult)) (relationships ds)\<rparr>)
      else if length sourceIds > 0 then
        (let impactResult = analyzeImpact ds sourceIds maxDepth;
             impactedNodeIds =
               fold insert (sourceIds @ directImpact impactResult @ indirectImpact impactResult) {}
         in \<lparr>entities = filter (\<lambda>entity. entity_id entity \<in> impactedNodeIds) (entities ds),
             relationships =
               filter (\<lambda>rel. rel_source rel \<in> impactedNodeIds \<and> rel_target rel \<in> impactedNodeIds)
                 (relationships ds)\<rparr>)
      else ds)"

section \<open>Graph builder (GraphBuilderService.buildDataset)\<close>

record ClassDefinition =
  class_id :: string
  class_name :: string
  class_sourceColumn :: string
  class_labelColumn :: string
  class_metadataColumns :: "string list"
  class_color :: string
  class_icon :: "string option"

record RelationshipDefinition =
  reldef_id :: string
  reldef_name :: string
  sourceClass :: string
  targetClass :: string
  reldef_sourceColumn :: string
  reldef_targetColumn :: string
  reldef_metadataColumns :: "string list"

record MappingConfiguration =
  mapping_classes :: "ClassDefinition list"
  mapping_relationships :: "RelationshipDefinition list"

record RawData =
  columns :: "string list"
  rows :: "js_record list"

text \<open>JavaScript's \<open>String(v)\<close> on the values of the model.\<close>

function string_of_nat :: "nat \<Rightarrow> string" where
  "string_of_nat n =
     (if n < 10 then [char_of (48 + n)]
      else string_of_nat (n div 10) @ [char_of (48 + n mod 10)])"
  by pat_completeness auto
termination
  by (relation "measure id") auto

fun String_of :: "jsval option \<Rightarrow> string" where
  "String_of None = ''undefined''"
| "String_of (Some JNull) = ''null''"
| "String_of (Some (JStr s)) = s"
| "String_of (Some (JNum n)) =
     (if sint n < 0 then ''-'' @ string_of_nat (nat (- sint n)) else string_of_nat (nat (sint n)))"
| "String_of (Some (JBool b)) = (if b then ''true'' else ''false'')"

text \<open>The loop that copies the metadata columns present in the row.\<close>

definition extractMetadata :: "string list \<Rightarrow> js_record \<Rightarrow> js_record" where
  "extractMetadata metadataColumns row =
     fold (\<lambda>metadataColumn md.
             case row metadataColumn of None \<Rightarrow> md | Some v \<Rightarrow> md(metadataColumn \<mapsto> v))
       metadataColumns Map.empty"

text \<open>
  The state of the build: the entities and relationships emitted so far and the set of
  emitted entity ids (\<open>entityMap\<close>, a map whose values are all \<open>true\<close>).
\<close>

record build_state =
  bs_entities :: "DataEntity list"
  bs_relationships :: "Relationship list"
  bs_entityMap :: "string set"

text \<open>One iteration of the row loop of a class definition.\<close>

definition entityRow :: "ClassDefinition \<Rightarrow> js_record \<Rightarrow> build_state \<Rightarrow> build_state" where
  "entityRow cd row st =
     (let entityId = String_of (row (class_sourceColumn cd)) in
      if entityId = [] \<or> entityId = ''undefined'' \<or> entityId = ''null'' then st
      else
        (let fullEntityId = class_id cd @ '':'' @ entityId in
         if fullEntityId \<in> bs_entityMap st then st
         else
           st\<lparr>bs_entities := bs_entities st @
                [\<lparr>entity_id = fullEntityId,
                  entity_type = class_id cd,
                  entity_label =
                    (case row (class_labelColumn cd) of
                       None \<Rightarrow> entityId
                     | Some JNull \<Rightarrow> entityId
                     | Some v \<Rightarrow> String_of (Some v)),
                  entity_metadata = extractMetadata (class_metadataColumns cd) row\<rparr>],
              bs_entityMap := insert fullEntityId (bs_entityMap st)\<rparr>))"

text \<open>One iteration of the row loop of a relationship definition.\<close>

definition relationshipRow :: "RelationshipDefinition \<Rightarrow> js_record \<Rightarrow> build_state \<Rightarrow> build_state" where
  "relationshipRow rd row st =
     (let sourceEntityId =
            (case row (reldef_sourceColumn rd) of None \<Rightarrow> [] | Some v \<Rightarrow> String_of (Some v));
          targetEntityId =
            (case row (reldef_targetColumn rd) of None \<Rightarrow> [] | Some v \<Rightarrow> String_of (Some v))
      in
      if sourceEntityId = [] \<or> targetEntityId = [] \<or>
         sourceEntityId = ''undefined'' \<or> targetEntityId = ''undefined'' \<or>
         sourceEntityId = ''null'' \<or> targetEntityId = ''null'' then st
      else
        (let sourceFullId = sourceClass rd @ '':'' @ sourceEntityId;
             targetFullId = targetClass rd @ '':'' @ targetEntityId
         in
         if sourceFullId \<notin> bs_entityMap st \<or> targetFullId \<notin> bs_entityMap st then st
         else if sourceFullId = targetFullId then st
         else
           (let relationshipId = reldef_id rd @ '':'' @ sourceEntityId @ ''-'' @ targetEntityId in
            if \<not> list_ex (\<lambda>r. rel_id r = relationshipId) (bs_relationships st)
            then st\<lparr>bs_relationships := bs_relationships st @
                      [\<lparr>rel_id = relationshipId,
                        rel_source = sourceFullId,
                        rel_target = targetFullId,
                        rel_type = reldef_id rd,
                        rel_metadata = extractMetadata (reldef_metadataColumns rd) row\<rparr>]\<rparr>
            else st)))"

text \<open>
  The static table \<open>typeColorMap\<close> outlives a call: \<open>buildDataset\<close> takes the table it
  finds and returns the one it leaves, next to the dataset.
\<close>

type_synonym color_map = "string \<rightharpoonup> string"

definition initialTypeColorMap :: color_map where
  "initialTypeColorMap =
     [''schema'' \<mapsto> ''#4682B4'', ''table'' \<mapsto> ''#2ECC71'', ''column'' \<mapsto> ''#E74C3C'',
      ''view'' \<mapsto> ''#F39C12'', ''procedure'' \<mapsto> ''#3498DB'', ''user'' \<mapsto> ''#9B59B6'',
      ''group'' \<mapsto> ''#ECF0F1'']"

definition buildEntities :: "RawData \<Rightarrow> ClassDefinition list \<Rightarrow> build_state \<Rightarrow> build_state" where
  "buildEntities rawData cds st = fold (\<lambda>cd. fold (entityRow cd) (rows rawData)) cds st"

definition buildRelationships :: "RawData \<Rightarrow> RelationshipDefinition list \<Rightarrow> build_state
                                   \<Rightarrow> build_state" where
  "buildRelationships rawData rds st = fold (\<lambda>rd. fold (relationshipRow rd) (rows rawData)) rds st"

definition buildState :: "RawData \<Rightarrow> MappingConfiguration \<Rightarrow> build_state" where
  "buildState rawData mapping =
     buildRelationships rawData (mapping_relationships mapping)
       (buildEntities rawData (mapping_classes mapping)
          \<lparr>bs_entities = [], bs_relationships = [], bs_entityMap = {}\<rparr>)"

definition buildDataset :: "color_map \<Rightarrow> RawData \<Rightarrow> MappingConfiguration \<Rightarrow> Dataset \<times> color_map" where
  "buildDataset typeColorMap rawData mapping =
     (let st = buildState rawData mapping in
      (\<lparr>entities = bs_entities st, relationships = bs_relationships st\<rparr>,
       fold (\<lambda>cd m. m(class_id cd \<mapsto> class_color cd)) (mapping_classes mapping) typeColorMap))"

section \<open>The adjacency object of JavaScript, with inherited properties and the thrown error\<close>

text \<open>
  \<open>buildAdjacencyMap\<close> fills a plain object \<open>{}\<close>. Reading a key that is not an own
  property of such an object finds the properties of \<open>Object.prototype\<close>: a function or
  an object, which is truthy and has no \<open>outgoing\<close> and no \<open>incoming\<close>.
\<close>

definition objectPrototypeKeys :: "string list" where
  "objectPrototypeKeys =
     [''constructor'', ''__defineGetter__'', ''__defineSetter__'', ''hasOwnProperty'',
      ''__lookupGetter__'', ''__lookupSetter__'', ''isPrototypeOf'', ''propertyIsEnumerable'',
      ''toString'', ''valueOf'', ''__proto__'', ''toLocaleString'']"

text \<open>
  The object is the list of the assignments made to it, the latest first. An assignment
  to the key \<open>__proto__\<close> replaces the prototype of the object by the assigned entry;
  reading \<open>__proto__\<close> then returns that entry, as reading an own property would, and the
  keys \<open>outgoing\<close> and \<open>incoming\<close> of that entry are inherited too (they read as arrays).
\<close>

type_synonym adjacency_object = "(string \<times> adj_entry) list"

datatype js_property = Entry adj_entry | OtherObject | Undefined

definition getProperty :: "adjacency_object \<Rightarrow> string \<Rightarrow> js_property" where
  "getProperty obj k =
     (case map_of obj k of
        Some a \<Rightarrow> Entry a
      | None \<Rightarrow>
          if k \<in> set objectPrototypeKeys \<or>
             (map_of obj ''__proto__'' \<noteq> None \<and> (k = ''outgoing'' \<or> k = ''incoming''))
          then OtherObject else Undefined)"

datatype error = TypeError

definition initEntityJS :: "DataEntity \<Rightarrow> adjacency_object \<Rightarrow> adjacency_object" where
  "initEntityJS e obj = (entity_id e, \<lparr>outgoing = [], incoming = []\<rparr>) # obj"

text \<open>
  \<open>if (adjacencyMap[sourceId]) adjacencyMap[sourceId].outgoing.push(...)\<close>: on an
  inherited property the test succeeds and \<open>.outgoing\<close> is \<open>undefined\<close>, so \<open>push\<close>
  throws a \<open>TypeError\<close>.
\<close>

definition addOutgoingJS :: "Relationship \<Rightarrow> adjacency_object \<Rightarrow> error + adjacency_object" where
  "addOutgoingJS r obj =
     (case getProperty obj (rel_source r) of
        Entry a \<Rightarrow>
          Inr ((rel_source r,
                a\<lparr>outgoing := outgoing a @ [\<lparr>target = rel_target r, edgeId = rel_id r\<rparr>]\<rparr>) # obj)
      | OtherObject \<Rightarrow> Inl TypeError
      | Undefined \<Rightarrow> Inr obj)"

definition addIncomingJS :: "Relationship \<Rightarrow> adjacency_object \<Rightarrow> error + adjacency_object" where
  "addIncomingJS r obj =
     (case getProperty obj (rel_target r) of
        Entry a \<Rightarrow>
          Inr ((rel_target r,
                a\<lparr>incoming := incoming a @ [\<lparr>source = rel_source r, in_edgeId = rel_id r\<rparr>]\<rparr>) # obj)
      | OtherObject \<Rightarrow> Inl TypeError
      | Undefined \<Rightarrow> Inr obj)"

definition addRelationshipJS :: "Relationship \<Rightarrow> adjacency_object \<Rightarrow> error + adjacency_object" where
  "addRelationshipJS r obj =
     (if rel_source r = [] \<or> rel_target r = [] then Inr obj
      else (case addOutgoingJS r obj of
              Inl e \<Rightarrow> Inl e
            | Inr obj' \<Rightarrow> addIncomingJS r obj'))"

fun addRelationshipsJS :: "Relationship list \<Rightarrow> adjacency_object \<Rightarrow> error + adjacency_object" where
  "addRelationshipsJS [] obj = Inr obj"
| "addRelationshipsJS (r # rs) obj =
     (case addRelationshipJS r obj of
        Inl e \<Rightarrow> Inl e
      | Inr obj' \<Rightarrow> addRelationshipsJS rs obj')"

definition buildAdjacencyMapJS :: "Dataset \<Rightarrow> error + adjacency_object" where
  "buildAdjacencyMapJS ds =
     addRelationshipsJS (relationships ds) (fold initEntityJS (entities ds) [])"

text \<open>
  What the traversals read of the object: whether \<open>adjacencyMap[k]\<close> is truthy, and
  \<open>adjacencyMap[k]?.outgoing || []\<close>. An inherited property reads as an entry without
  edges.
\<close>

definition readAdjacency :: "adjacency_object \<Rightarrow> adjacency" where
  "readAdjacency obj k =
     (case getProperty obj k of
        Entry a \<Rightarrow> Some a
      | OtherObject \<Rightarrow> Some \<lparr>outgoing = [], incoming = []\<rparr>
      | Undefined \<Rightarrow> None)"

text \<open>
  \<open>analyzeImpact\<close> on the object: the error of the construction leaves the function.
  The depth stays an integer: \<open>NaN\<close> and \<open>Infinity\<close> never stop the layers, as a depth
  above the number of layers does.
\<close>

definition analyzeImpactJS :: "Dataset \<Rightarrow> string list \<Rightarrow> int \<Rightarrow> error + ImpactAnalysisResult" where
  "analyzeImpactJS ds sourceIds maxDepth =
     (case buildAdjacencyMapJS ds of
        Inl e \<Rightarrow> Inl e
      | Inr obj \<Rightarrow>
          (let st = processSources (readAdjacency obj) maxDepth sourceIds
                      \<lparr>st_direct = [], st_indirect = [],
                       st_visited = fold insert sourceIds {}, st_critical = []\<rparr>
           in Inr \<lparr>directImpact = st_direct st,
                   indirectImpact = st_indirect st,
                   impactMetrics =
                     \<lparr>totalImpactedNodes = length (st_direct st) + length (st_indirect st),
                      observedMaxDepth =
                        (if length (st_critical st) > 0
                         then Max (set (map (\<lambda>path. int (length path) - 1) (st_critical st)))
                         else 0),
                      criticalPaths = length (st_critical st)\<rparr>\<rparr>))"

section \<open>Path analysis on JavaScript numbers\<close>

text \<open>
  \<open>maxLength\<close> is a JavaScript number: a finite value (every double is a rational), an
  infinity or \<open>NaN\<close>. The caller passes \<open>parseInt\<close> of a text field, which is an integer
  or \<open>NaN\<close>. Every comparison with \<open>NaN\<close> is false.
\<close>

datatype jsnumber = Finite rat | PosInfinity | NegInfinity | NaN

text \<open>\<open>n >= x\<close> and \<open>n <= x\<close> for a length \<open>n\<close> and a number \<open>x\<close>.\<close>

fun lengthGE :: "nat \<Rightarrow> jsnumber \<Rightarrow> bool" where
  "lengthGE n (Finite q) = (q \<le> of_nat n)"
| "lengthGE n PosInfinity = False"
| "lengthGE n NegInfinity = True"
| "lengthGE n NaN = False"

fun lengthLE :: "nat \<Rightarrow> jsnumber \<Rightarrow> bool" where
  "lengthLE n (Finite q) = (of_nat n \<le> q)"
| "lengthLE n PosInfinity = True"
| "lengthLE n NegInfinity = False"
| "lengthLE n NaN = False"

definition outgoingOfJS :: "adjacency_object \<Rightarrow> string \<Rightarrow> out_edge list" where
  "outgoingOfJS obj k = (case getProperty obj k of Entry a \<Rightarrow> outgoing a | _ \<Rightarrow> [])"

text \<open>Every target that an entry of the object lists: the search cannot leave this set.\<close>

definition allTargets :: "adjacency_object \<Rightarrow> string set" where
  "allTargets obj = target ` set (concat (map (\<lambda>(k, a). outgoing a) obj))"

function findAllPathsJS :: "adjacency_object \<Rightarrow> string \<Rightarrow> string \<Rightarrow> string list \<Rightarrow> string list
                             \<Rightarrow> string set \<Rightarrow> path_info list \<Rightarrow> jsnumber \<Rightarrow> path_info list"
  and tryConnectionsJS :: "adjacency_object \<Rightarrow> out_edge list \<Rightarrow> string \<Rightarrow> string list
                             \<Rightarrow> string list \<Rightarrow> string set \<Rightarrow> path_info list \<Rightarrow> jsnumber
                             \<Rightarrow> path_info list" where
  "findAllPathsJS obj currentNode targetNode currentPath currentEdges visited allPaths maxLength =
     (if currentNode = targetNode
      then allPaths @
             [\<lparr>nodes = currentPath, edges = currentEdges,
               metadata = \<lparr>md_length = length currentPath,
                            md_hops = int (length currentPath) - 1\<rparr>\<rparr>]
      else if lengthGE (length currentPath) maxLength then allPaths
      else tryConnectionsJS obj (outgoingOfJS obj currentNode) targetNode currentPath currentEdges
             visited allPaths maxLength)"
| "tryConnectionsJS obj [] targetNode currentPath currentEdges visited allPaths maxLength = allPaths"
| "tryConnectionsJS obj (edge # rest) targetNode currentPath currentEdges visited allPaths maxLength =
     (if target edge \<in> visited
      then tryConnectionsJS obj rest targetNode currentPath currentEdges visited allPaths maxLength
      else tryConnectionsJS obj rest targetNode currentPath currentEdges
             (insert (target edge) visited - {target edge})
             (findAllPathsJS obj (target edge) targetNode (currentPath @ [target edge])
                (currentEdges @ [edgeId edge]) (insert (target edge) visited) allPaths maxLength)
             maxLength)"
  by pat_completeness auto
termination
proof (relation "measures
        [\<lambda>x. case x of
                Inl (obj, c, t, p, es, v, a, m) \<Rightarrow> card (allTargets obj - v)
              | Inr (obj, os, t, p, es, v, a, m) \<Rightarrow> card ((allTargets obj \<union> target ` set os) - v),
         \<lambda>x. case x of Inl _ \<Rightarrow> Suc 0 | Inr _ \<Rightarrow> 0,
         \<lambda>x. case x of
                Inl _ \<Rightarrow> 0
              | Inr (obj, os, t, p, es, v, a, m) \<Rightarrow> length os]", goal_cases)
  case 1
  then show ?case by simp
next
  case (2 obj c t p es v a m)
  have "target ` set (outgoingOfJS obj c) \<subseteq> allTargets obj"
    by (auto simp: outgoingOfJS_def getProperty_def allTargets_def
        split: option.splits if_splits dest!: map_of_SomeD)
  then have "allTargets obj \<union> target ` set (outgoingOfJS obj c) = allTargets obj"
    by blast
  then show ?case by simp
next
  case (3 obj edge rest t p es v a m)
  then have "(allTargets obj \<union> target ` set (edge # rest)) - v =
             (allTargets obj \<union> target ` set rest) - v" by auto
  then show ?case by simp
next
  case (4 obj edge rest t p es v a m)
  have "allTargets obj - insert (target edge) v
          \<subset> (allTargets obj \<union> target ` set (edge # rest)) - v"
    using 4 by auto
  then have "card (allTargets obj - insert (target edge) v)
          < card ((allTargets obj \<union> target ` set (edge # rest)) - v)"
    by (intro psubset_card_mono) (simp_all add: allTargets_def del: set_concat)
  then show ?case by simp
next
  case (5 obj edge rest t p es v a m)
  have "(allTargets obj \<union> target ` set rest) - (insert (target edge) v - {target edge})
          \<subseteq> (allTargets obj \<union> target ` set (edge # rest)) - v"
    using 5 by auto
  then have "card ((allTargets obj \<union> target ` set rest) - (insert (target edge) v - {target edge}))
          \<le> card ((allTargets obj \<union> target ` set (edge # rest)) - v)"
    by (intro card_mono) (simp_all add: allTargets_def del: set_concat)
  then show ?case by auto
qed

text \<open>
  The loops over the targets and the sources. \<open>!adjacencyMap[id]\<close> holds for an absent
  key only; an inherited property passes the test.
\<close>

fun pathsForTargetsJS :: "adjacency_object \<Rightarrow> jsnumber \<Rightarrow> string \<Rightarrow> string list \<Rightarrow> path_info list
                           \<Rightarrow> path_info list" where
  "pathsForTargetsJS obj maxLength sourceId [] allPaths = allPaths"
| "pathsForTargetsJS obj maxLength sourceId (targetId # rest) allPaths =
     (if sourceId = targetId then pathsForTargetsJS obj maxLength sourceId rest allPaths
      else if getProperty obj sourceId = Undefined
      then pathsForTargetsJS obj maxLength sourceId rest allPaths
      else if getProperty obj targetId = Undefined
      then pathsForTargetsJS obj maxLength sourceId rest allPaths
      else pathsForTargetsJS obj maxLength sourceId rest
             (findAllPathsJS obj sourceId targetId [sourceId] [] {sourceId} allPaths maxLength))"

fun pathsForSourcesJS :: "adjacency_object \<Rightarrow> jsnumber \<Rightarrow> string list \<Rightarrow> string list
                           \<Rightarrow> path_info list \<Rightarrow> path_info list" where
  "pathsForSourcesJS obj maxLength [] targetIds allPaths = allPaths"
| "pathsForSourcesJS obj maxLength (sourceId # rest) targetIds allPaths =
     pathsForSourcesJS obj maxLength rest targetIds
       (pathsForTargetsJS obj maxLength sourceId targetIds allPaths)"

definition findPathsJS :: "Dataset \<Rightarrow> string list \<Rightarrow> string list \<Rightarrow> jsnumber
                            \<Rightarrow> error + PathAnalysisResult" where
  "findPathsJS ds sourceIds targetIds maxLength =
     (case buildAdjacencyMapJS ds of
        Inl e \<Rightarrow> Inl e
      | Inr obj \<Rightarrow>
          (let ps = pathsForSourcesJS obj maxLength sourceIds targetIds [];
               pathLengths = map (\<lambda>path. length (nodes path)) ps
           in Inr \<lparr>paths = ps,
                   metrics =
                     \<lparr>totalPaths = length ps,
                      shortestPathLength = (if length ps \<noteq> 0 then Min (set pathLengths) else 0),
                      longestPathLength = (if length ps \<noteq> 0 then Max (set pathLengths) else 0)\<rparr>\<rparr>))"

section \<open>Auxiliary notions for the proofs\<close>

text \<open>The outgoing edge a relationship contributes, and the relationships that contribute to a node.\<close>

definition mkOut :: "Relationship \<Rightarrow> out_edge" where
  "mkOut r = \<lparr>target = rel_target r, edgeId = rel_id r\<rparr>"

definition usable :: "string \<Rightarrow> Relationship \<Rightarrow> bool" where
  "usable n r \<longleftrightarrow> rel_source r = n \<and> rel_source r \<noteq> [] \<and> rel_target r \<noteq> []"

text \<open>
  The invariant of the impact analysis for the source set \<open>S\<close>: the two result lists
  have no repetition and no element of \<open>S\<close>, and \<open>visited\<close> holds exactly \<open>S\<close> and them.
\<close>

definition impactInv :: "string set \<Rightarrow> impact_state \<Rightarrow> bool" where
  "impactInv S st \<longleftrightarrow>
     distinct (st_direct st @ st_indirect st) \<and>
     st_visited st = S \<union> set (st_direct st) \<union> set (st_indirect st) \<and>
     (set (st_direct st) \<union> set (st_indirect st)) \<inter> S = {}"

text \<open>Datasets of the scenarios: entities and relationships with default attributes.\<close>

definition ent :: "string \<Rightarrow> DataEntity" where
  "ent i = \<lparr>entity_id = i, entity_type = ''node'', entity_label = i, entity_metadata = Map.empty\<rparr>"

definition rel :: "string \<Rightarrow> string \<Rightarrow> string \<Rightarrow> Relationship" where
  "rel i s t = \<lparr>rel_id = i, rel_source = s, rel_target = t, rel_type = ''default'', rel_metadata = Map.empty\<rparr>"

definition sharedNeighbourDataset :: Dataset where
  "sharedNeighbourDataset =
     \<lparr>entities = [ent ''A'', ent ''B'', ent ''X'', ent ''Y''],
      relationships = [rel ''e1'' ''A'' ''X'', rel ''e2'' ''X'' ''Y'', rel ''e3'' ''B'' ''Y'']\<rparr>"

definition fanOutDataset :: Dataset where
  "fanOutDataset =
     \<lparr>entities = [ent ''1'', ent ''2'', ent ''3'', ent ''4'', ent ''5'', ent ''6'', ent ''7''],
      relationships = [rel ''e2'' ''1'' ''2'', rel ''e3'' ''1'' ''3'', rel ''e4'' ''1'' ''4'',
                       rel ''e5'' ''1'' ''5'', rel ''e6'' ''1'' ''6'', rel ''e7'' ''1'' ''7'']\<rparr>"

definition chainDataset :: Dataset where
  "chainDataset =
     \<lparr>entities = [ent ''1'', ent ''2'', ent ''3''],
      relationships = [rel ''e1'' ''1'' ''2'', rel ''e2'' ''2'' ''3'']\<rparr>"

text \<open>
  First occurrence wins: \<open>firstBy key seen xs\<close> keeps an element of \<open>xs\<close> exactly when its
  key is not in \<open>seen\<close> and is not the key of an earlier element of \<open>xs\<close>.
\<close>

fun firstBy :: "('a \<Rightarrow> 'k) \<Rightarrow> 'k set \<Rightarrow> 'a list \<Rightarrow> 'a list" where
  "firstBy key seen [] = []"
| "firstBy key seen (x # xs) =
     (if key x \<in> seen then firstBy key seen xs
      else x # firstBy key (insert (key x) seen) xs)"

text \<open>
  The description of the builder that the deduplication claims compare the code with.
  The entity a row yields for a class definition, before deduplication: none when the
  source value is empty or reads \<open>undefined\<close> or \<open>null\<close>; otherwise the entity with
  the id \<open>classId:value\<close>, the class as type, the label column (the source value when
  the label is absent or null) and the metadata columns present in the row.
\<close>

definition entityCandidate :: "ClassDefinition \<Rightarrow> js_record \<Rightarrow> DataEntity option" where
  "entityCandidate cd row =
     (let v = String_of (row (class_sourceColumn cd)) in
      if v = [] \<or> v = ''undefined'' \<or> v = ''null'' then None
      else Some \<lparr>entity_id = class_id cd @ '':'' @ v,
                 entity_type = class_id cd,
                 entity_label =
                   (case row (class_labelColumn cd) of
                      None \<Rightarrow> v | Some JNull \<Rightarrow> v | Some l \<Rightarrow> String_of (Some l)),
                 entity_metadata = extractMetadata (class_metadataColumns cd) row\<rparr>)"

definition entityCandidates :: "RawData \<Rightarrow> ClassDefinition list \<Rightarrow> DataEntity list" where
  "entityCandidates rawData cds =
     concat (map (\<lambda>cd. List.map_filter (entityCandidate cd) (rows rawData)) cds)"

text \<open>
  The relationship a row yields for a relationship definition, before deduplication,
  given the set \<open>E\<close> of the entity ids that were emitted: none when an endpoint value is
  missing, when a full id is not in \<open>E\<close>, or when the two full ids are equal.
\<close>

definition relationshipCandidate :: "string set \<Rightarrow> RelationshipDefinition \<Rightarrow> js_record
                                      \<Rightarrow> Relationship option" where
  "relationshipCandidate E rd row =
     (let s = (case row (reldef_sourceColumn rd) of None \<Rightarrow> [] | Some v \<Rightarrow> String_of (Some v));
          t = (case row (reldef_targetColumn rd) of None \<Rightarrow> [] | Some v \<Rightarrow> String_of (Some v))
      in
      if s = [] \<or> t = [] \<or> s = ''undefined'' \<or> t = ''undefined'' \<or> s = ''null'' \<or> t = ''null''
      then None
      else if sourceClass rd @ '':'' @ s \<notin> E \<or> targetClass rd @ '':'' @ t \<notin> E then None
      else if sourceClass rd @ '':'' @ s = targetClass rd @ '':'' @ t then None
      else Some \<lparr>rel_id = reldef_id rd @ '':'' @ s @ ''-'' @ t,
                 rel_source = sourceClass rd @ '':'' @ s,
                 rel_target = targetClass rd @ '':'' @ t,
                 rel_type = reldef_id rd,
                 rel_metadata = extractMetadata (reldef_metadataColumns rd) row\<rparr>)"

definition relationshipCandidates :: "string set \<Rightarrow> RawData \<Rightarrow> RelationshipDefinition list
                                       \<Rightarrow> Relationship list" where
  "relationshipCandidates E rawData rds =
     concat (map (\<lambda>rd. List.map_filter (relationshipCandidate E rd) (rows rawData)) rds)"

text \<open>The inputs of scenario D, with the first row repeated, and of a self-referring row.\<close>

definition scenarioClass :: ClassDefinition where
  "scenarioClass =
     \<lparr>class_id = ''class'', class_name = ''Class'', class_sourceColumn = ''id'',
      class_labelColumn = ''name'', class_metadataColumns = [], class_color = ''#4682B4'',
      class_icon = None\<rparr>"

definition scenarioLink :: RelationshipDefinition where
  "scenarioLink =
     \<lparr>reldef_id = ''link'', reldef_name = ''Link'', sourceClass = ''class'',
      targetClass = ''class'', reldef_sourceColumn = ''id'', reldef_targetColumn = ''next'',
      reldef_metadataColumns = []\<rparr>"

definition scenarioMapping :: MappingConfiguration where
  "scenarioMapping = \<lparr>mapping_classes = [scenarioClass], mapping_relationships = [scenarioLink]\<rparr>"

definition aliceRow :: js_record where
  "aliceRow = [''id'' \<mapsto> JStr ''e1'', ''name'' \<mapsto> JStr ''Alice'']"

definition alice2Row :: js_record where
  "alice2Row = [''id'' \<mapsto> JStr ''e1'', ''name'' \<mapsto> JStr ''Alice2'']"

definition linkRows :: "js_record list" where
  "linkRows =
     [[''id'' \<mapsto> JStr ''a'', ''next'' \<mapsto> JStr ''b''],
      [''id'' \<mapsto> JStr ''b'', ''next'' \<mapsto> JStr ''b''],
      [''id'' \<mapsto> JStr ''c'', ''next'' \<mapsto> JStr ''z'']]"

text \<open>
  The invariants of the data model that the \<open>Dataset\<close> type does not enforce:
  relationship ids are unique and both endpoints of a relationship are entity ids.
\<close>

definition wellFormedDataset :: "Dataset \<Rightarrow> bool" where
  "wellFormedDataset ds \<longleftrightarrow>
     distinct (map rel_id (relationships ds)) \<and>
     (\<forall>r\<in>set (relationships ds).
        rel_source r \<in> entity_id ` set (entities ds) \<and>
        rel_target r \<in> entity_id ` set (entities ds))"

text \<open>
  Every listed edge id belongs to an outgoing edge of the adjacency index that joins two
  listed nodes.
\<close>

definition edgesJoin :: "adjacency \<Rightarrow> string list \<Rightarrow> string list \<Rightarrow> bool" where
  "edgesJoin adj ns es \<longleftrightarrow>
     (\<forall>e\<in>set es. \<exists>n\<in>set ns. \<exists>out\<in>set (outgoingOf adj n). edgeId out = e \<and> target out \<in> set ns)"

text \<open>Datasets that break an invariant: a dangling relationship, a repeated relationship id.\<close>

definition danglingDataset :: Dataset where
  "danglingDataset = \<lparr>entities = [ent ''A''], relationships = [rel ''e1'' ''A'' ''Z'']\<rparr>"

definition repeatedIdDataset :: Dataset where
  "repeatedIdDataset =
     \<lparr>entities = [ent ''A'', ent ''B'', ent ''C''],
      relationships = [rel ''e1'' ''A'' ''B'', rel ''e1'' ''C'' ''A'']\<rparr>"

text \<open>A well-formed dataset with a node off the path from \<open>1\<close> to \<open>3\<close>.\<close>

definition branchDataset :: Dataset where
  "branchDataset =
     \<lparr>entities = [ent ''1'', ent ''2'', ent ''3'', ent ''4''],
      relationships = [rel ''e1'' ''1'' ''2'', rel ''e2'' ''2'' ''3'', rel ''e3'' ''1'' ''4'']\<rparr>"

text \<open>
  A path is well-formed for the bound \<open>L\<close>: no node twice, one edge less than nodes, and,
  when \<open>L\<close> is an integer, at most \<open>L\<close> nodes.
\<close>

definition wellFormedPathJS :: "jsnumber \<Rightarrow> path_info \<Rightarrow> bool" where
  "wellFormedPathJS L p \<longleftrightarrow>
     distinct (nodes p) \<and> length (nodes p) = length (edges p) + 1 \<and>
     (\<forall>k. L = Finite (of_int k) \<longrightarrow> int (length (nodes p)) \<le> k)"

text \<open>A dataset with a relationship to an id that is no entity and names an inherited property.\<close>

definition inheritedKeyDataset :: Dataset where
  "inheritedKeyDataset =
     \<lparr>entities = [ent ''A''], relationships = [rel ''e1'' ''A'' ''constructor'']\<rparr>"

text \<open>
  A key reads as an inherited property of the object with the own keys \<open>ids\<close>.
\<close>

definition inheritedFor :: "string set \<Rightarrow> string \<Rightarrow> bool" where
  "inheritedFor ids k \<longleftrightarrow>
     k \<notin> ids \<and>
     (k \<in> set objectPrototypeKeys \<or> (''__proto__'' \<in> ids \<and> (k = ''outgoing'' \<or> k = ''incoming'')))"

text \<open>
  The adjacency \<open>adj'\<close> reads as \<open>adj\<close>, except for keys absent from \<open>adj\<close> that it reads
  as entries without edges.
\<close>

definition pads :: "adjacency \<Rightarrow> adjacency \<Rightarrow> bool" where
  "pads adj' adj \<longleftrightarrow>
     (\<forall>k. adj' k = adj k \<or> (adj k = None \<and> adj' k = Some \<lparr>outgoing = [], incoming = []\<rparr>))"

text \<open>No edge of the adjacency leads to \<open>t\<close>.\<close>

definition noEdgeTo :: "adjacency \<Rightarrow> string \<Rightarrow> bool" where
  "noEdgeTo adj t \<longleftrightarrow> (\<forall>k. t \<notin> target ` set (outgoingOf adj k))"

section \<open>The adjacency index\<close>

lemma dom_addOutgoing: "dom (addOutgoing r m) = dom m"
  by (auto simp: addOutgoing_def split: option.splits)

lemma dom_addIncoming: "dom (addIncoming r m) = dom m"
  by (auto simp: addIncoming_def split: option.splits)

lemma dom_addRelationship: "dom (addRelationship r m) = dom m"
  by (simp add: addRelationship_def dom_addOutgoing dom_addIncoming)

lemma dom_fold_addRelationship: "dom (fold addRelationship rs m) = dom m"
  by (induction rs arbitrary: m) (simp_all add: dom_addRelationship)

lemma dom_fold_initEntity: "dom (fold initEntity es m) = dom m \<union> entity_id ` set es"
  by (induction es arbitrary: m) (auto simp: initEntity_def)

lemma dom_buildAdjacencyMap: "dom (buildAdjacencyMap ds) = entity_id ` set (entities ds)"
  by (simp add: buildAdjacencyMap_def dom_fold_addRelationship dom_fold_initEntity)

lemma outgoingOf_addIncoming: "outgoingOf (addIncoming r m) n = outgoingOf m n"
  by (auto simp: addIncoming_def outgoingOf_def split: option.splits)

lemma outgoingOf_addOutgoing:
  "outgoingOf (addOutgoing r m) n =
     (if n \<in> dom m \<and> rel_source r = n then outgoingOf m n @ [mkOut r] else outgoingOf m n)"
  by (auto simp: addOutgoing_def outgoingOf_def mkOut_def split: option.splits)

lemma outgoingOf_addRelationship:
  "outgoingOf (addRelationship r m) n =
     (if n \<in> dom m \<and> usable n r then outgoingOf m n @ [mkOut r] else outgoingOf m n)"
  by (simp add: addRelationship_def outgoingOf_addIncoming outgoingOf_addOutgoing usable_def)

lemma outgoingOf_fold_addRelationship:
  "outgoingOf (fold addRelationship rs m) n =
     (if n \<in> dom m then outgoingOf m n @ map mkOut (filter (usable n) rs) else outgoingOf m n)"
  by (induction rs arbitrary: m) (simp_all add: outgoingOf_addRelationship dom_addRelationship)

lemma outgoingOf_initEntity:
  "outgoingOf (initEntity e m) n = (if n = entity_id e then [] else outgoingOf m n)"
  by (simp add: initEntity_def outgoingOf_def)

lemma outgoingOf_fold_initEntity_aux:
  "outgoingOf m n = [] \<Longrightarrow> outgoingOf (fold initEntity es m) n = []"
  by (induction es arbitrary: m) (simp_all add: outgoingOf_initEntity)

lemma outgoingOf_fold_initEntity: "outgoingOf (fold initEntity es Map.empty) n = []"
  by (rule outgoingOf_fold_initEntity_aux) (simp add: outgoingOf_def)

lemma outgoingOf_buildAdjacencyMap:
  "outgoingOf (buildAdjacencyMap ds) n =
     (if n \<in> entity_id ` set (entities ds) then map mkOut (filter (usable n) (relationships ds)) else [])"
  by (simp add: buildAdjacencyMap_def outgoingOf_fold_addRelationship outgoingOf_fold_initEntity
      dom_fold_initEntity)

section \<open>Impact analysis: the invariant\<close>

declare findIndirectImpacts.simps [simp del]

declare findAllPaths.simps [simp del] tryConnections.simps [simp del]

lemma visitNeighbors_inv:
  "impactInv S st \<Longrightarrow> impactInv S (fst (visitNeighbors es (st, nl)))"
proof (induction es arbitrary: st nl)
  case Nil
  then show ?case by simp
next
  case (Cons e es)
  show ?case
  proof (cases "target e \<in> st_visited st")
    case True
    with Cons show ?thesis by simp
  next
    case False
    let ?st = "st\<lparr>st_indirect := st_indirect st @ [target e],
                   st_visited := insert (target e) (st_visited st)\<rparr>"
    from False Cons.prems have "impactInv S ?st"
      by (auto simp: impactInv_def)
    from Cons.IH[OF this] False show ?thesis by simp
  qed
qed

lemma visitNeighbors_direct:
  "st_direct (fst (visitNeighbors es (st, nl))) = st_direct st"
  by (induction es arbitrary: st nl) simp_all

lemma visitNeighbors_visited:
  "st_visited st \<subseteq> st_visited (fst (visitNeighbors es (st, nl)))"
proof (induction es arbitrary: st nl)
  case Nil
  then show ?case by simp
next
  case (Cons e es)
  show ?case using Cons.IH[of st nl] Cons.IH[of "st\<lparr>st_indirect := st_indirect st @ [target e],
                   st_visited := insert (target e) (st_visited st)\<rparr>" "nl @ [target e]"]
    by auto
qed

lemma processLayer_inv:
  "impactInv S st \<Longrightarrow> impactInv S (fst (processLayer adj p layer (st, nl)))"
proof (induction layer arbitrary: st nl)
  case Nil
  then show ?case by simp
next
  case (Cons n ns)
  show ?case
  proof (cases "adj n")
    case None
    with Cons show ?thesis by simp
  next
    case (Some a)
    let ?st = "if length (outgoing a) > 5 then st\<lparr>st_critical := st_critical st @ [p @ [n]]\<rparr> else st"
    have "impactInv S ?st" using Cons.prems by (simp add: impactInv_def)
    then have "impactInv S (fst (visitNeighbors (outgoing a) (?st, nl)))"
      by (rule visitNeighbors_inv)
    from Cons.IH[OF this, of "snd (visitNeighbors (outgoing a) (?st, nl))"] Some
    show ?thesis by simp
  qed
qed

lemma processLayer_direct:
  "st_direct (fst (processLayer adj p layer (st, nl))) = st_direct st"
proof (induction layer arbitrary: st nl)
  case Nil
  then show ?case by simp
next
  case (Cons n ns)
  show ?case
  proof (cases "adj n")
    case None
    with Cons show ?thesis by simp
  next
    case (Some a)
    let ?st = "if length (outgoing a) > 5 then st\<lparr>st_critical := st_critical st @ [p @ [n]]\<rparr> else st"
    from Cons.IH[of "fst (visitNeighbors (outgoing a) (?st, nl))" "snd (visitNeighbors (outgoing a) (?st, nl))"] Some
    show ?thesis by (simp add: visitNeighbors_direct)
  qed
qed

lemma processLayer_visited:
  "st_visited st \<subseteq> st_visited (fst (processLayer adj p layer (st, nl)))"
proof (induction layer arbitrary: st nl)
  case Nil
  then show ?case by simp
next
  case (Cons n ns)
  show ?case
  proof (cases "adj n")
    case None
    with Cons show ?thesis by simp
  next
    case (Some a)
    let ?st = "if length (outgoing a) > 5 then st\<lparr>st_critical := st_critical st @ [p @ [n]]\<rparr> else st"
    have "st_visited st \<subseteq> st_visited (fst (visitNeighbors (outgoing a) (?st, nl)))"
      using visitNeighbors_visited[of ?st "outgoing a" nl]
      by (cases "5 < length (outgoing a)") simp_all
    with Cons.IH[of "fst (visitNeighbors (outgoing a) (?st, nl))" "snd (visitNeighbors (outgoing a) (?st, nl))"] Some
    show ?thesis by auto
  qed
qed

lemma findIndirectImpacts_inv:
  "impactInv S st \<Longrightarrow> impactInv S (findIndirectImpacts adj layer st d m p)"
proof (induction adj layer st d m p rule: findIndirectImpacts.induct)
  case (1 adj layer st d m p)
  obtain st' nl where pl: "processLayer adj p layer (st, []) = (st', nl)"
    by (cases "processLayer adj p layer (st, [])")
  have inv': "impactInv S st'"
    using processLayer_inv[OF "1.prems", of adj p layer "[]"] pl by simp
  show ?case
  proof (cases "d \<ge> m")
    case True
    with "1.prems" show ?thesis by (simp add: findIndirectImpacts.simps)
  next
    case False
    show ?thesis
    proof (cases "nl = []")
      case True
      with False pl inv' show ?thesis by (simp add: findIndirectImpacts.simps)
    next
      case nonempty: False
      from "1.IH"[OF False pl[symmetric] nonempty inv'] False pl nonempty
      show ?thesis by (simp add: findIndirectImpacts.simps[of adj layer st d m p])
    qed
  qed
qed

lemma findIndirectImpacts_direct:
  "st_direct (findIndirectImpacts adj layer st d m p) = st_direct st"
proof (induction adj layer st d m p rule: findIndirectImpacts.induct)
  case (1 adj layer st d m p)
  obtain st' nl where pl: "processLayer adj p layer (st, []) = (st', nl)"
    by (cases "processLayer adj p layer (st, [])")
  have d': "st_direct st' = st_direct st"
    using processLayer_direct[of adj p layer st "[]"] pl by simp
  show ?case
  proof (cases "d \<ge> m")
    case True
    then show ?thesis by (simp add: findIndirectImpacts.simps)
  next
    case False
    show ?thesis
    proof (cases "nl = []")
      case True
      with False pl d' show ?thesis by (simp add: findIndirectImpacts.simps)
    next
      case nonempty: False
      from "1.IH"[OF False pl[symmetric] nonempty] False pl nonempty d'
      show ?thesis by (simp add: findIndirectImpacts.simps[of adj layer st d m p])
    qed
  qed
qed

lemma findIndirectImpacts_visited:
  "st_visited st \<subseteq> st_visited (findIndirectImpacts adj layer st d m p)"
proof (induction adj layer st d m p rule: findIndirectImpacts.induct)
  case (1 adj layer st d m p)
  obtain st' nl where pl: "processLayer adj p layer (st, []) = (st', nl)"
    by (cases "processLayer adj p layer (st, [])")
  have d': "st_visited st \<subseteq> st_visited st'"
    using processLayer_visited[of st adj p layer "[]"] pl by simp
  show ?case
  proof (cases "d \<ge> m")
    case True
    then show ?thesis by (simp add: findIndirectImpacts.simps)
  next
    case False
    show ?thesis
    proof (cases "nl = []")
      case True
      with False pl d' show ?thesis by (simp add: findIndirectImpacts.simps)
    next
      case nonempty: False
      from "1.IH"[OF False pl[symmetric] nonempty] False pl nonempty d'
      show ?thesis by (auto simp add: findIndirectImpacts.simps[of adj layer st d m p])
    qed
  qed
qed

lemma findIndirectImpacts_depth: "m \<le> d \<Longrightarrow> findIndirectImpacts adj layer st d m p = st"
  by (simp add: findIndirectImpacts.simps)

lemma addDirect_inv: "impactInv S st \<Longrightarrow> impactInv S (addDirect es st)"
proof (induction es arbitrary: st)
  case Nil
  then show ?case by simp
next
  case (Cons e es)
  show ?case
  proof (cases "target e \<in> st_visited st")
    case True
    with Cons show ?thesis by simp
  next
    case False
    let ?st = "st\<lparr>st_direct := st_direct st @ [target e],
                   st_visited := insert (target e) (st_visited st)\<rparr>"
    from False Cons.prems have "impactInv S ?st"
      by (auto simp: impactInv_def)
    from Cons.IH[OF this] False show ?thesis by simp
  qed
qed

lemma addDirect_indirect: "st_indirect (addDirect es st) = st_indirect st"
  by (induction es arbitrary: st) simp_all

lemma addDirect_visited:
  "st_visited st \<union> target ` set es \<subseteq> st_visited (addDirect es st)"
proof (induction es arbitrary: st)
  case Nil
  then show ?case by simp
next
  case (Cons e es)
  show ?case using Cons.IH[of st] Cons.IH[of "st\<lparr>st_direct := st_direct st @ [target e],
                   st_visited := insert (target e) (st_visited st)\<rparr>"]
    by auto
qed

lemma addDirect_direct: "set (st_direct st) \<subseteq> set (st_direct (addDirect es st))"
proof (induction es arbitrary: st)
  case Nil
  then show ?case by simp
next
  case (Cons e es)
  show ?case using Cons.IH[of st] Cons.IH[of "st\<lparr>st_direct := st_direct st @ [target e],
                   st_visited := insert (target e) (st_visited st)\<rparr>"]
    by auto
qed

lemma processSources_inv:
  "impactInv S st \<Longrightarrow> impactInv S (processSources adj m srcs st)"
proof (induction srcs arbitrary: st)
  case Nil
  then show ?case by simp
next
  case (Cons s ss)
  show ?case
  proof (cases "adj s")
    case None
    with Cons show ?thesis by simp
  next
    case (Some a)
    have "impactInv S (findIndirectImpacts adj (map target (outgoing a)) (addDirect (outgoing a) st) 1 m [s])"
      by (intro findIndirectImpacts_inv addDirect_inv Cons.prems)
    from Cons.IH[OF this] Some show ?thesis by simp
  qed
qed

lemma processSources_visited:
  "st_visited st \<subseteq> st_visited (processSources adj m srcs st)"
proof (induction srcs arbitrary: st)
  case Nil
  then show ?case by simp
next
  case (Cons s ss)
  show ?case
  proof (cases "adj s")
    case None
    with Cons show ?thesis by simp
  next
    case (Some a)
    let ?st = "findIndirectImpacts adj (map target (outgoing a)) (addDirect (outgoing a) st) 1 m [s]"
    have "st_visited st \<subseteq> st_visited ?st"
      using addDirect_visited[of st "outgoing a"]
        findIndirectImpacts_visited[of "addDirect (outgoing a) st" adj "map target (outgoing a)" 1 m "[s]"]
      by blast
    with Cons.IH[of ?st] Some show ?thesis by auto
  qed
qed

lemma processSources_direct:
  "set (st_direct st) \<subseteq> set (st_direct (processSources adj m srcs st))"
proof (induction srcs arbitrary: st)
  case Nil
  then show ?case by simp
next
  case (Cons s ss)
  show ?case
  proof (cases "adj s")
    case None
    with Cons show ?thesis by simp
  next
    case (Some a)
    let ?st = "findIndirectImpacts adj (map target (outgoing a)) (addDirect (outgoing a) st) 1 m [s]"
    have "set (st_direct st) \<subseteq> set (st_direct ?st)"
      using addDirect_direct[of st "outgoing a"] by (simp add: findIndirectImpacts_direct)
    with Cons.IH[of ?st] Some show ?thesis by auto
  qed
qed

lemma processSources_neighbours:
  "s \<in> set srcs \<Longrightarrow> target ` set (outgoingOf adj s) \<subseteq> st_visited (processSources adj m srcs st)"
proof (induction srcs arbitrary: st)
  case Nil
  then show ?case by simp
next
  case (Cons x xs)
  show ?case
  proof (cases "adj x")
    case None
    show ?thesis
    proof (cases "s = x")
      case True
      with None show ?thesis by (simp add: outgoingOf_def)
    next
      case False
      with Cons None show ?thesis by simp
    qed
  next
    case (Some a)
    let ?st = "findIndirectImpacts adj (map target (outgoing a)) (addDirect (outgoing a) st) 1 m [x]"
    show ?thesis
    proof (cases "s = x")
      case True
      have "target ` set (outgoing a) \<subseteq> st_visited ?st"
        using addDirect_visited[of st "outgoing a"]
          findIndirectImpacts_visited[of "addDirect (outgoing a) st" adj "map target (outgoing a)" 1 m "[x]"]
        by blast
      with processSources_visited[of ?st adj m xs] True Some
      show ?thesis by (auto simp: outgoingOf_def)
    next
      case False
      with Cons.prems have "s \<in> set xs" by simp
      from Cons.IH[OF this, of ?st] Some show ?thesis by simp
    qed
  qed
qed

lemma processSources_shallow:
  "m \<le> 1 \<Longrightarrow> st_indirect (processSources adj m srcs st) = st_indirect st"
proof (induction srcs arbitrary: st)
  case Nil
  then show ?case by simp
next
  case (Cons s ss)
  then show ?case
    by (cases "adj s") (simp_all add: findIndirectImpacts_depth addDirect_indirect)
qed

lemma fold_insert_set: "fold insert xs A = set xs \<union> A"
  by (induction xs arbitrary: A) auto

lemma impactState_inv: "impactInv (set sourceIds) (impactState ds sourceIds maxDepth)"
  unfolding impactState_def
  by (rule processSources_inv) (simp add: impactInv_def fold_insert_set)

text \<open>The definitions a concrete run unfolds.\<close>

lemmas eval_defs = analyzeImpact_def impactState_def buildAdjacencyMap_def
    ent_def rel_def initEntity_def addRelationship_def addOutgoing_def addIncoming_def
    findIndirectImpacts.simps outgoingOf_def findPaths_def

lemma addDirect_targets:
  "target ` set es - st_visited st \<subseteq> set (st_direct (addDirect es st))"
proof (induction es arbitrary: st)
  case Nil
  then show ?case by simp
next
  case (Cons e es)
  show ?case
  proof (cases "target e \<in> st_visited st")
    case True
    with Cons.IH[of st] show ?thesis by auto
  next
    case False
    let ?st = "st\<lparr>st_direct := st_direct st @ [target e],
                   st_visited := insert (target e) (st_visited st)\<rparr>"
    have "target e \<in> set (st_direct (addDirect es ?st))"
      using addDirect_direct[of ?st es] by auto
    with Cons.IH[of ?st] False show ?thesis by auto
  qed
qed

lemma processSources_first:
  "target ` set (outgoingOf adj s) - st_visited st
     \<subseteq> set (st_direct (processSources adj m (s # rest) st))"
proof (cases "adj s")
  case None
  then show ?thesis by (simp add: outgoingOf_def)
next
  case (Some a)
  let ?st = "findIndirectImpacts adj (map target (outgoing a)) (addDirect (outgoing a) st) 1 m [s]"
  have "target ` set (outgoing a) - st_visited st \<subseteq> set (st_direct ?st)"
    using addDirect_targets[of "outgoing a" st] by (simp add: findIndirectImpacts_direct)
  with processSources_direct[of ?st adj m rest] Some show ?thesis
    by (auto simp: outgoingOf_def)
qed

section \<open>First occurrence wins\<close>

lemma set_map_filter: "set (List.map_filter f xs) = {y. \<exists>x\<in>set xs. f x = Some y}"
  by (induction xs) (auto split: option.splits)

lemma firstBy_append:
  "firstBy key seen (xs @ ys) = firstBy key seen xs @ firstBy key (seen \<union> key ` set xs) ys"
  by (induction xs arbitrary: seen) (auto simp: insert_absorb)

lemma set_firstBy: "set (firstBy key seen xs) \<subseteq> set xs"
  by (induction xs arbitrary: seen) auto

lemma keys_firstBy: "key ` set (firstBy key seen xs) = key ` set xs - seen"
  by (induction xs arbitrary: seen) auto

lemma distinct_firstBy: "distinct (map key (firstBy key seen xs))"
proof (induction xs arbitrary: seen)
  case Nil
  then show ?case by simp
next
  case (Cons x xs)
  have "key x \<notin> key ` set (firstBy key (insert (key x) seen) xs)"
    by (simp add: keys_firstBy)
  with Cons show ?case by simp
qed

section \<open>The builder as first-occurrence deduplication\<close>

lemma entityRow_candidate:
  "entityRow cd row st =
     (case entityCandidate cd row of
        None \<Rightarrow> st
      | Some e \<Rightarrow>
          if entity_id e \<in> bs_entityMap st then st
          else st\<lparr>bs_entities := bs_entities st @ [e],
                  bs_entityMap := insert (entity_id e) (bs_entityMap st)\<rparr>)"
  by (simp add: entityRow_def entityCandidate_def Let_def)

lemma fold_entityRow:
  "fold (entityRow cd) rs st =
     st\<lparr>bs_entities := bs_entities st @
          firstBy entity_id (bs_entityMap st) (List.map_filter (entityCandidate cd) rs),
        bs_entityMap := bs_entityMap st \<union>
          entity_id ` set (List.map_filter (entityCandidate cd) rs)\<rparr>"
proof (induction rs arbitrary: st)
  case Nil
  then show ?case by (simp add: map_filter_simps)
next
  case (Cons r rs)
  have "fold (entityRow cd) (r # rs) st = fold (entityRow cd) rs (entityRow cd r st)"
    by simp
  also note Cons.IH
  finally show ?case
    by (cases "entityCandidate cd r")
       (auto simp: entityRow_candidate[of cd r st] map_filter_simps insert_absorb)
qed

lemma buildEntities_firstBy:
  "buildEntities rawData cds st =
     st\<lparr>bs_entities := bs_entities st @
          firstBy entity_id (bs_entityMap st) (entityCandidates rawData cds),
        bs_entityMap := bs_entityMap st \<union> entity_id ` set (entityCandidates rawData cds)\<rparr>"
proof (induction cds arbitrary: st)
  case Nil
  then show ?case by (simp add: buildEntities_def entityCandidates_def)
next
  case (Cons cd cds)
  have "buildEntities rawData (cd # cds) st =
          buildEntities rawData cds (fold (entityRow cd) (rows rawData) st)"
    by (simp add: buildEntities_def)
  also note Cons.IH
  finally have eq: "buildEntities rawData (cd # cds) st =
      (fold (entityRow cd) (rows rawData) st)
        \<lparr>bs_entities := bs_entities (fold (entityRow cd) (rows rawData) st) @
           firstBy entity_id (bs_entityMap (fold (entityRow cd) (rows rawData) st))
             (entityCandidates rawData cds),
         bs_entityMap := bs_entityMap (fold (entityRow cd) (rows rawData) st) \<union>
           entity_id ` set (entityCandidates rawData cds)\<rparr>" .
  show ?case unfolding eq
    by (simp add: fold_entityRow entityCandidates_def firstBy_append Un_assoc image_Un)
qed

lemma relationshipRow_candidate:
  "relationshipRow rd row st =
     (case relationshipCandidate (bs_entityMap st) rd row of
        None \<Rightarrow> st
      | Some r \<Rightarrow>
          if rel_id r \<in> rel_id ` set (bs_relationships st) then st
          else st\<lparr>bs_relationships := bs_relationships st @ [r]\<rparr>)"
proof -
  define s where
    "s = (case row (reldef_sourceColumn rd) of None \<Rightarrow> [] | Some v \<Rightarrow> String_of (Some v))"
  define t where
    "t = (case row (reldef_targetColumn rd) of None \<Rightarrow> [] | Some v \<Rightarrow> String_of (Some v))"
  define rid where "rid = reldef_id rd @ '':'' @ s @ ''-'' @ t"
  have ex: "list_ex (\<lambda>r. rel_id r = rid) (bs_relationships st) \<longleftrightarrow>
            rid \<in> rel_id ` set (bs_relationships st)"
    by (auto simp: list_ex_iff)
  show ?thesis
    unfolding relationshipRow_def relationshipCandidate_def Let_def
      s_def[symmetric] t_def[symmetric] rid_def[symmetric]
    by (simp add: ex)
qed

lemma fold_relationshipRow:
  "fold (relationshipRow rd) rs st =
     st\<lparr>bs_relationships := bs_relationships st @
          firstBy rel_id (rel_id ` set (bs_relationships st))
            (List.map_filter (relationshipCandidate (bs_entityMap st) rd) rs)\<rparr>"
proof (induction rs arbitrary: st)
  case Nil
  then show ?case by (simp add: map_filter_simps)
next
  case (Cons r rs)
  have "fold (relationshipRow rd) (r # rs) st =
          fold (relationshipRow rd) rs (relationshipRow rd r st)"
    by simp
  also note Cons.IH
  finally show ?case
    by (cases "relationshipCandidate (bs_entityMap st) rd r")
       (auto simp: relationshipRow_candidate[of rd r st] map_filter_simps insert_absorb)
qed

lemma buildRelationships_firstBy:
  "buildRelationships rawData rds st =
     st\<lparr>bs_relationships := bs_relationships st @
          firstBy rel_id (rel_id ` set (bs_relationships st))
            (relationshipCandidates (bs_entityMap st) rawData rds)\<rparr>"
proof (induction rds arbitrary: st)
  case Nil
  then show ?case by (simp add: buildRelationships_def relationshipCandidates_def)
next
  case (Cons rd rds)
  have "buildRelationships rawData (rd # rds) st =
          buildRelationships rawData rds (fold (relationshipRow rd) (rows rawData) st)"
    by (simp add: buildRelationships_def)
  also note Cons.IH
  finally have eq: "buildRelationships rawData (rd # rds) st =
      (fold (relationshipRow rd) (rows rawData) st)
        \<lparr>bs_relationships := bs_relationships (fold (relationshipRow rd) (rows rawData) st) @
           firstBy rel_id (rel_id ` set (bs_relationships (fold (relationshipRow rd) (rows rawData) st)))
             (relationshipCandidates (bs_entityMap (fold (relationshipRow rd) (rows rawData) st))
                rawData rds)\<rparr>" .
  show ?case unfolding eq
    by (simp add: fold_relationshipRow relationshipCandidates_def firstBy_append
        keys_firstBy Un_Diff_cancel image_Un)
qed

lemma buildState_entities:
  "bs_entities (buildState rawData mapping) =
     firstBy entity_id {} (entityCandidates rawData (mapping_classes mapping))"
  by (simp add: buildState_def buildRelationships_firstBy buildEntities_firstBy)

lemma buildState_entityMap:
  "bs_entityMap (buildState rawData mapping) =
     entity_id ` set (bs_entities (buildState rawData mapping))"
  by (simp add: buildState_def buildRelationships_firstBy buildEntities_firstBy keys_firstBy)

lemma buildState_relationships:
  "bs_relationships (buildState rawData mapping) =
     firstBy rel_id {}
       (relationshipCandidates (entity_id ` set (bs_entities (buildState rawData mapping)))
          rawData (mapping_relationships mapping))"
  by (simp add: buildState_def buildRelationships_firstBy buildEntities_firstBy keys_firstBy)

lemma relationshipCandidate_sound:
  "relationshipCandidate E rd row = Some r \<Longrightarrow>
   rel_source r \<in> E \<and> rel_target r \<in> E \<and> rel_source r \<noteq> rel_target r"
  by (auto simp: relationshipCandidate_def Let_def split: if_splits)

lemma relationshipCandidates_sound:
  "r \<in> set (relationshipCandidates E rawData rds) \<Longrightarrow>
   rel_source r \<in> E \<and> rel_target r \<in> E \<and> rel_source r \<noteq> rel_target r"
  by (auto simp: relationshipCandidates_def set_map_filter dest: relationshipCandidate_sound)

lemma map_filter_append:
  "List.map_filter f (xs @ ys) = List.map_filter f xs @ List.map_filter f ys"
  by (induction xs) (auto split: option.splits)

lemma firstBy_repeated:
  "x \<in> set xs \<Longrightarrow> firstBy key seen (xs @ x # ys) = firstBy key seen (xs @ ys)"
  by (simp add: firstBy_append)

lemma firstBy_map_filter_repeated:
  assumes "r \<in> set xs"
  shows "firstBy key seen (List.map_filter f (xs @ r # ys)) =
         firstBy key seen (List.map_filter f (xs @ ys))"
proof (cases "f r")
  case None
  then show ?thesis by (simp add: map_filter_append)
next
  case (Some y)
  with assms have "y \<in> set (List.map_filter f xs)"
    by (auto simp: set_map_filter)
  from firstBy_repeated[OF this] Some show ?thesis
    by (simp add: map_filter_append)
qed

lemma set_map_filter_repeated:
  "r \<in> set xs \<Longrightarrow> set (List.map_filter f (xs @ r # ys)) = set (List.map_filter f (xs @ ys))"
  by (auto simp: set_map_filter)

lemma fold_entityRow_repeated:
  "r \<in> set xs \<Longrightarrow> fold (entityRow cd) (xs @ r # ys) st = fold (entityRow cd) (xs @ ys) st"
  by (simp only: fold_entityRow firstBy_map_filter_repeated set_map_filter_repeated)

lemma fold_relationshipRow_repeated:
  "r \<in> set xs \<Longrightarrow>
   fold (relationshipRow rd) (xs @ r # ys) st = fold (relationshipRow rd) (xs @ ys) st"
  by (simp only: fold_relationshipRow firstBy_map_filter_repeated)

lemma buildState_repeated:
  assumes "r \<in> set xs"
  shows "buildState (rawData\<lparr>rows := xs @ r # ys\<rparr>) mapping =
         buildState (rawData\<lparr>rows := xs @ ys\<rparr>) mapping"
proof -
  have e: "(\<lambda>cd. fold (entityRow cd) (xs @ r # ys)) = (\<lambda>cd. fold (entityRow cd) (xs @ ys))"
    by (intro ext fold_entityRow_repeated assms)
  have l: "(\<lambda>rd. fold (relationshipRow rd) (xs @ r # ys)) =
           (\<lambda>rd. fold (relationshipRow rd) (xs @ ys))"
    by (intro ext fold_relationshipRow_repeated assms)
  have rows1: "rows (rawData\<lparr>rows := xs @ r # ys\<rparr>) = xs @ r # ys" by simp
  have rows2: "rows (rawData\<lparr>rows := xs @ ys\<rparr>) = xs @ ys" by simp
  show ?thesis
    unfolding buildState_def buildEntities_def buildRelationships_def rows1 rows2 e l ..
qed

lemmas build_defs = buildDataset_def buildState_def buildEntities_def buildRelationships_def
  entityRow_def relationshipRow_def extractMetadata_def scenarioMapping_def scenarioClass_def
  scenarioLink_def

section \<open>Path analysis: edges join nodes of their path\<close>

lemma edgesJoin_extend:
  assumes "edgesJoin adj ns es" and "c \<in> set ns" and "out \<in> set (outgoingOf adj c)"
  shows "edgesJoin adj (ns @ [target out]) (es @ [edgeId out])"
  unfolding edgesJoin_def
proof
  fix e assume "e \<in> set (es @ [edgeId out])"
  then consider "e \<in> set es" | "e = edgeId out" by auto
  then show "\<exists>n\<in>set (ns @ [target out]). \<exists>out'\<in>set (outgoingOf adj n).
               edgeId out' = e \<and> target out' \<in> set (ns @ [target out])"
  proof cases
    case 1
    with assms(1) obtain n out' where "n \<in> set ns" "out' \<in> set (outgoingOf adj n)"
      "edgeId out' = e" "target out' \<in> set ns"
      unfolding edgesJoin_def by blast
    then show ?thesis by auto
  next
    case 2
    with assms(2,3) show ?thesis by auto
  qed
qed

lemma findAllPaths_edgesJoin:
  "(\<forall>p\<in>set allPaths. edgesJoin adj (nodes p) (edges p)) \<Longrightarrow>
   edgesJoin adj currentPath currentEdges \<Longrightarrow> c \<in> set currentPath \<Longrightarrow>
   \<forall>p\<in>set (findAllPaths adj c t currentPath currentEdges visited allPaths L).
     edgesJoin adj (nodes p) (edges p)"
  and tryConnections_edgesJoin:
  "(\<forall>p\<in>set allPaths. edgesJoin adj (nodes p) (edges p)) \<Longrightarrow>
   edgesJoin adj currentPath currentEdges \<Longrightarrow>
   (\<exists>c\<in>set currentPath. set os \<subseteq> set (outgoingOf adj c)) \<Longrightarrow>
   \<forall>p\<in>set (tryConnections adj os t currentPath currentEdges visited allPaths L).
     edgesJoin adj (nodes p) (edges p)"
proof (induction adj c t currentPath currentEdges visited allPaths L
         and adj os t currentPath currentEdges visited allPaths L
       rule: findAllPaths_tryConnections.induct)
  case (1 adj c t currentPath currentEdges visited allPaths L)
  show ?case
  proof (cases "c = t")
    case True
    with "1.prems" show ?thesis by (auto simp: findAllPaths.simps)
  next
    case False
    show ?thesis
    proof (cases "int (length currentPath) \<ge> L")
      case True
      with False "1.prems" show ?thesis by (simp add: findAllPaths.simps)
    next
      case short: False
      have "\<exists>c'\<in>set currentPath. set (outgoingOf adj c) \<subseteq> set (outgoingOf adj c')"
        using "1.prems"(3) by blast
      from "1.IH"[OF False short "1.prems"(1,2) this] False short
      show ?thesis by (simp add: findAllPaths.simps[of adj c t])
    qed
  qed
next
  case (2 adj t currentPath currentEdges visited allPaths L)
  then show ?case by (simp add: tryConnections.simps)
next
  case (3 adj edge rest t currentPath currentEdges visited allPaths L)
  from "3.prems"(3) obtain c where c: "c \<in> set currentPath"
    "set (edge # rest) \<subseteq> set (outgoingOf adj c)" by blast
  then have rest: "\<exists>c\<in>set currentPath. set rest \<subseteq> set (outgoingOf adj c)" by auto
  show ?case
  proof (cases "target edge \<in> visited")
    case True
    from "3.IH"(1)[OF True "3.prems"(1,2) rest] True show ?thesis
      by (simp add: tryConnections.simps)
  next
    case False
    let ?found = "findAllPaths adj (target edge) t (currentPath @ [target edge])
                    (currentEdges @ [edgeId edge]) (insert (target edge) visited) allPaths L"
    have "edgesJoin adj (currentPath @ [target edge]) (currentEdges @ [edgeId edge])"
      using c by (intro edgesJoin_extend[OF "3.prems"(2), of c]) auto
    then have found: "\<forall>p\<in>set ?found. edgesJoin adj (nodes p) (edges p)"
      by (intro "3.IH"(2)[OF False "3.prems"(1)]) simp_all
    from "3.IH"(3)[OF False found "3.prems"(2) rest] False
    show ?thesis by (simp add: tryConnections.simps)
  qed
qed

lemma pathsForTargets_edgesJoin:
  "(\<forall>p\<in>set ps. edgesJoin adj (nodes p) (edges p)) \<Longrightarrow>
   \<forall>p\<in>set (pathsForTargets adj L s tgts ps). edgesJoin adj (nodes p) (edges p)"
proof (induction tgts arbitrary: ps)
  case Nil
  then show ?case by simp
next
  case (Cons t tgts)
  show ?case
  proof (cases "s = t \<or> adj s = None \<or> adj t = None")
    case True
    with Cons show ?thesis by auto
  next
    case False
    have "\<forall>p\<in>set (findAllPaths adj s t [s] [] {s} ps L). edgesJoin adj (nodes p) (edges p)"
      by (intro findAllPaths_edgesJoin Cons.prems) (simp_all add: edgesJoin_def)
    from Cons.IH[OF this] False show ?thesis by auto
  qed
qed

lemma pathsForSources_edgesJoin:
  "(\<forall>p\<in>set ps. edgesJoin adj (nodes p) (edges p)) \<Longrightarrow>
   \<forall>p\<in>set (pathsForSources adj L srcs tgts ps). edgesJoin adj (nodes p) (edges p)"
proof (induction srcs arbitrary: ps)
  case Nil
  then show ?case by simp
next
  case (Cons s srcs)
  have "\<forall>p\<in>set (pathsForTargets adj L s tgts ps). edgesJoin adj (nodes p) (edges p)"
    by (rule pathsForTargets_edgesJoin) (rule Cons.prems)
  from Cons.IH[OF this] show ?case by simp
qed

lemma findPaths_edgesJoin:
  "p \<in> set (paths (findPaths ds srcs tgts L)) \<Longrightarrow>
   edgesJoin (buildAdjacencyMap ds) (nodes p) (edges p)"
  using pathsForSources_edgesJoin[of "[]" "buildAdjacencyMap ds" L srcs tgts]
  by (simp add: findPaths_def Let_def)

section \<open>The graph filter\<close>

lemma nodeIdsInPaths_eq: "nodeIdsInPaths ps = (\<Union>p\<in>set ps. set (nodes p))"
proof -
  have "fold (\<lambda>path acc. fold insert (nodes path) acc) ps A = (\<Union>p\<in>set ps. set (nodes p)) \<union> A" for A
    by (induction ps arbitrary: A) (auto simp: fold_insert_set)
  then show ?thesis by (simp add: nodeIdsInPaths_def)
qed

lemma edgeIdsInPaths_eq: "edgeIdsInPaths ps = (\<Union>p\<in>set ps. set (edges p))"
proof -
  have "fold (\<lambda>path acc. fold insert (edges path) acc) ps A = (\<Union>p\<in>set ps. set (edges p)) \<union> A" for A
    by (induction ps arbitrary: A) (auto simp: fold_insert_set)
  then show ?thesis by (simp add: edgeIdsInPaths_def)
qed

lemma outgoing_relationship:
  assumes "out \<in> set (outgoingOf (buildAdjacencyMap ds) n)"
  shows "\<exists>r\<in>set (relationships ds). rel_id r = edgeId out \<and> rel_source r = n \<and> rel_target r = target out"
  using assms
  by (auto simp: outgoingOf_buildAdjacencyMap mkOut_def usable_def split: if_splits)

lemma path_edge_endpoints:
  assumes wf: "wellFormedDataset ds"
    and p: "p \<in> set (paths (findPaths ds srcs tgts L))"
    and r: "r \<in> set (relationships ds)" "rel_id r \<in> set (edges p)"
  shows "rel_source r \<in> set (nodes p) \<and> rel_target r \<in> set (nodes p)"
proof -
  from findPaths_edgesJoin[OF p] r(2) obtain n out where
    n: "n \<in> set (nodes p)" and out: "out \<in> set (outgoingOf (buildAdjacencyMap ds) n)"
    and e: "edgeId out = rel_id r" and t: "target out \<in> set (nodes p)"
    unfolding edgesJoin_def by blast
  from outgoing_relationship[OF out] obtain r' where
    r': "r' \<in> set (relationships ds)" "rel_id r' = edgeId out" "rel_source r' = n"
      "rel_target r' = target out" by blast
  from wf have "inj_on rel_id (set (relationships ds))"
    by (simp add: wellFormedDataset_def distinct_map)
  with r(1) r'(1,2) e have "r' = r" by (auto dest: inj_onD)
  with r' n t show ?thesis by simp
qed

lemma filterDataset_subset:
  "set (entities (filterDataset ds src tgt d)) \<subseteq> set (entities ds) \<and>
   set (relationships (filterDataset ds src tgt d)) \<subseteq> set (relationships ds)"
  by (auto simp: filterDataset_def Let_def)

lemma filterDataset_endpoints:
  assumes wf: "wellFormedDataset ds"
    and r: "r \<in> set (relationships (filterDataset ds src tgt d))"
  shows "rel_source r \<in> entity_id ` set (entities (filterDataset ds src tgt d)) \<and>
         rel_target r \<in> entity_id ` set (entities (filterDataset ds src tgt d))"
proof -
  from r filterDataset_subset[of ds src tgt d] have rds: "r \<in> set (relationships ds)" by blast
  with wf have ends: "rel_source r \<in> entity_id ` set (entities ds)"
    "rel_target r \<in> entity_id ` set (entities ds)"
    by (auto simp: wellFormedDataset_def)
  consider (paths) "src \<noteq> []" "tgt \<noteq> []" | (impact) "src \<noteq> []" "tgt = []" | (same) "src = []"
    by blast
  then show ?thesis
  proof cases
    case paths
    let ?ps = "paths (findPaths ds src tgt d)"
    from paths r have "rel_id r \<in> edgeIdsInPaths ?ps"
      by (simp add: filterDataset_def Let_def)
    then obtain p where p: "p \<in> set ?ps" "rel_id r \<in> set (edges p)"
      by (auto simp: edgeIdsInPaths_eq)
    from path_edge_endpoints[OF wf p(1) rds p(2)] p(1)
    have "rel_source r \<in> nodeIdsInPaths ?ps" "rel_target r \<in> nodeIdsInPaths ?ps"
      by (auto simp: nodeIdsInPaths_eq)
    with ends paths show ?thesis
      by (auto simp: filterDataset_def Let_def)
  next
    case impact
    with r ends show ?thesis
      by (auto simp: filterDataset_def Let_def)
  next
    case same
    with ends show ?thesis
      by (cases "tgt = []") (simp_all add: filterDataset_def)
  qed
qed

section \<open>Path analysis on JavaScript numbers: well-formed paths\<close>

declare findAllPathsJS.simps [simp del] tryConnectionsJS.simps [simp del]

lemmas js_defs = findPathsJS_def analyzeImpactJS_def buildAdjacencyMapJS_def initEntityJS_def
  addRelationshipJS_def addOutgoingJS_def addIncomingJS_def getProperty_def
  objectPrototypeKeys_def outgoingOfJS_def readAdjacency_def ent_def rel_def
  findAllPathsJS.simps tryConnectionsJS.simps findIndirectImpacts.simps

lemma lengthGE_integer: "lengthGE n (Finite (of_int k)) \<longleftrightarrow> k \<le> int n"
proof -
  have "(of_nat n :: rat) = of_int (int n)" by simp
  then show ?thesis by (simp only: lengthGE.simps of_int_le_iff)
qed

lemma lengthLE_integer: "lengthLE n (Finite (of_int k)) \<longleftrightarrow> int n \<le> k"
proof -
  have "(of_nat n :: rat) = of_int (int n)" by simp
  then show ?thesis by (simp only: lengthLE.simps of_int_le_iff)
qed

lemma findAllPathsJS_wellFormed:
  "(\<forall>p\<in>set allPaths. wellFormedPathJS L p) \<Longrightarrow> distinct currentPath \<Longrightarrow>
   set currentPath \<subseteq> visited \<Longrightarrow> length currentPath = length currentEdges + 1 \<Longrightarrow>
   (c = t \<longrightarrow> (\<forall>k. L = Finite (of_int k) \<longrightarrow> int (length currentPath) \<le> k)) \<Longrightarrow>
   \<forall>p\<in>set (findAllPathsJS obj c t currentPath currentEdges visited allPaths L).
     wellFormedPathJS L p"
  and tryConnectionsJS_wellFormed:
  "(\<forall>p\<in>set allPaths. wellFormedPathJS L p) \<Longrightarrow> distinct currentPath \<Longrightarrow>
   set currentPath \<subseteq> visited \<Longrightarrow> length currentPath = length currentEdges + 1 \<Longrightarrow>
   \<not> lengthGE (length currentPath) L \<Longrightarrow>
   \<forall>p\<in>set (tryConnectionsJS obj os t currentPath currentEdges visited allPaths L).
     wellFormedPathJS L p"
proof (induction obj c t currentPath currentEdges visited allPaths L
         and obj os t currentPath currentEdges visited allPaths L
       rule: findAllPathsJS_tryConnectionsJS.induct)
  case (1 obj c t currentPath currentEdges visited allPaths L)
  show ?case
  proof (cases "c = t")
    case True
    with "1.prems" show ?thesis
      by (auto simp: findAllPathsJS.simps wellFormedPathJS_def)
  next
    case False
    show ?thesis
    proof (cases "lengthGE (length currentPath) L")
      case True
      with False "1.prems" show ?thesis by (simp add: findAllPathsJS.simps)
    next
      case short: False
      from "1.IH"[OF False short "1.prems"(1-4) short] False short
      show ?thesis by (simp add: findAllPathsJS.simps[of obj c t])
    qed
  qed
next
  case (2 obj t currentPath currentEdges visited allPaths L)
  then show ?case by (simp add: tryConnectionsJS.simps)
next
  case (3 obj edge rest t currentPath currentEdges visited allPaths L)
  show ?case
  proof (cases "target edge \<in> visited")
    case True
    from "3.IH"(1)[OF True "3.prems"] True show ?thesis
      by (simp add: tryConnectionsJS.simps)
  next
    case False
    let ?found = "findAllPathsJS obj (target edge) t (currentPath @ [target edge])
                    (currentEdges @ [edgeId edge]) (insert (target edge) visited) allPaths L"
    from False "3.prems"(3) have fresh: "target edge \<notin> set currentPath" by auto
    have found: "\<forall>p\<in>set ?found. wellFormedPathJS L p"
    proof (rule "3.IH"(2)[OF False "3.prems"(1)])
      show "distinct (currentPath @ [target edge])" using "3.prems"(2) fresh by simp
      show "set (currentPath @ [target edge]) \<subseteq> insert (target edge) visited"
        using "3.prems"(3) by auto
      show "length (currentPath @ [target edge]) = length (currentEdges @ [edgeId edge]) + 1"
        using "3.prems"(4) by simp
      show "target edge = t \<longrightarrow>
            (\<forall>k. L = Finite (of_int k) \<longrightarrow> int (length (currentPath @ [target edge])) \<le> k)"
        using "3.prems"(5) by (auto simp: lengthGE_integer)
    qed
    have "set currentPath \<subseteq> insert (target edge) visited - {target edge}"
      using "3.prems"(3) fresh by auto
    from "3.IH"(3)[OF False found "3.prems"(2) this "3.prems"(4,5)] False
    show ?thesis by (simp add: tryConnectionsJS.simps)
  qed
qed

lemma pathsForTargetsJS_wellFormed:
  "(\<forall>p\<in>set ps. wellFormedPathJS L p) \<Longrightarrow>
   \<forall>p\<in>set (pathsForTargetsJS obj L s tgts ps). wellFormedPathJS L p"
proof (induction tgts arbitrary: ps)
  case Nil
  then show ?case by simp
next
  case (Cons t tgts)
  show ?case
  proof (cases "s = t \<or> getProperty obj s = Undefined \<or> getProperty obj t = Undefined")
    case True
    with Cons show ?thesis by auto
  next
    case False
    have "\<forall>p\<in>set (findAllPathsJS obj s t [s] [] {s} ps L). wellFormedPathJS L p"
      using False by (intro findAllPathsJS_wellFormed Cons.prems) simp_all
    from Cons.IH[OF this] False show ?thesis by auto
  qed
qed

lemma pathsForSourcesJS_wellFormed:
  "(\<forall>p\<in>set ps. wellFormedPathJS L p) \<Longrightarrow>
   \<forall>p\<in>set (pathsForSourcesJS obj L srcs tgts ps). wellFormedPathJS L p"
proof (induction srcs arbitrary: ps)
  case Nil
  then show ?case by simp
next
  case (Cons s srcs)
  have "\<forall>p\<in>set (pathsForTargetsJS obj L s tgts ps). wellFormedPathJS L p"
    by (rule pathsForTargetsJS_wellFormed) (rule Cons.prems)
  from Cons.IH[OF this] show ?case by simp
qed

section \<open>The map model is the adjacency object on the runs that return\<close>

lemma getProperty_cases:
  "getProperty obj k =
     (case map_of obj k of
        Some a \<Rightarrow> Entry a
      | None \<Rightarrow> if inheritedFor (dom (map_of obj)) k then OtherObject else Undefined)"
  by (auto simp: getProperty_def inheritedFor_def domIff split: option.splits)

lemma map_of_fold_initEntityJS:
  "map_of (fold initEntityJS es obj) = fold initEntity es (map_of obj)"
  by (induction es arbitrary: obj) (simp_all add: initEntityJS_def initEntity_def)

lemma addOutgoingJS_Inr:
  "addOutgoingJS r obj = Inr obj' \<Longrightarrow>
   map_of obj' = addOutgoing r (map_of obj) \<and> \<not> inheritedFor (dom (map_of obj)) (rel_source r)"
  by (auto simp: addOutgoingJS_def addOutgoing_def getProperty_cases inheritedFor_def
      split: option.splits if_splits)

lemma addOutgoingJS_Inl:
  "addOutgoingJS r obj = Inl e \<Longrightarrow> inheritedFor (dom (map_of obj)) (rel_source r)"
  by (auto simp: addOutgoingJS_def getProperty_cases split: option.splits if_splits)

lemma addIncomingJS_Inr:
  "addIncomingJS r obj = Inr obj' \<Longrightarrow>
   map_of obj' = addIncoming r (map_of obj) \<and> \<not> inheritedFor (dom (map_of obj)) (rel_target r)"
  by (auto simp: addIncomingJS_def addIncoming_def getProperty_cases inheritedFor_def
      split: option.splits if_splits)

lemma addIncomingJS_Inl:
  "addIncomingJS r obj = Inl e \<Longrightarrow> inheritedFor (dom (map_of obj)) (rel_target r)"
  by (auto simp: addIncomingJS_def getProperty_cases split: option.splits if_splits)

text \<open>A relationship that the construction does not skip and that names an inherited property.\<close>

lemma addRelationshipJS_Inr:
  assumes "addRelationshipJS r obj = Inr obj'"
  shows "map_of obj' = addRelationship r (map_of obj) \<and>
         (rel_source r \<noteq> [] \<and> rel_target r \<noteq> [] \<longrightarrow>
            \<not> inheritedFor (dom (map_of obj)) (rel_source r) \<and>
            \<not> inheritedFor (dom (map_of obj)) (rel_target r))"
proof (cases "rel_source r = [] \<or> rel_target r = []")
  case True
  with assms show ?thesis by (auto simp: addRelationshipJS_def addRelationship_def)
next
  case False
  with assms obtain obj1 where o: "addOutgoingJS r obj = Inr obj1"
    and i: "addIncomingJS r obj1 = Inr obj'"
    by (auto simp: addRelationshipJS_def split: sum.splits)
  from addOutgoingJS_Inr[OF o] addIncomingJS_Inr[OF i] False
  show ?thesis by (simp add: addRelationship_def dom_addOutgoing)
qed

lemma addRelationshipJS_Inl:
  assumes "addRelationshipJS r obj = Inl e"
  shows "rel_source r \<noteq> [] \<and> rel_target r \<noteq> [] \<and>
         (inheritedFor (dom (map_of obj)) (rel_source r) \<or>
          inheritedFor (dom (map_of obj)) (rel_target r))"
proof (cases "rel_source r = [] \<or> rel_target r = []")
  case True
  with assms show ?thesis by (auto simp: addRelationshipJS_def)
next
  case False
  show ?thesis
  proof (cases "addOutgoingJS r obj")
    case (Inl e')
    from addOutgoingJS_Inl[OF this] False show ?thesis by simp
  next
    case (Inr obj1)
    with assms False have "addIncomingJS r obj1 = Inl e"
      by (simp add: addRelationshipJS_def)
    from addIncomingJS_Inl[OF this] addOutgoingJS_Inr[OF Inr] False
    show ?thesis by (simp add: dom_addOutgoing)
  qed
qed

lemma addRelationshipsJS_Inr:
  "addRelationshipsJS rs obj = Inr obj' \<Longrightarrow>
   map_of obj' = fold addRelationship rs (map_of obj) \<and>
   (\<forall>r\<in>set rs. rel_source r \<noteq> [] \<and> rel_target r \<noteq> [] \<longrightarrow>
      \<not> inheritedFor (dom (map_of obj)) (rel_source r) \<and>
      \<not> inheritedFor (dom (map_of obj)) (rel_target r))"
proof (induction rs arbitrary: obj)
  case Nil
  then show ?case by simp
next
  case (Cons r rs)
  from Cons.prems obtain obj1 where s: "addRelationshipJS r obj = Inr obj1"
    and t: "addRelationshipsJS rs obj1 = Inr obj'"
    by (auto split: sum.splits)
  from addRelationshipJS_Inr[OF s] have m: "map_of obj1 = addRelationship r (map_of obj)"
    and h: "rel_source r \<noteq> [] \<and> rel_target r \<noteq> [] \<longrightarrow>
            \<not> inheritedFor (dom (map_of obj)) (rel_source r) \<and>
            \<not> inheritedFor (dom (map_of obj)) (rel_target r)"
    by simp_all
  from m have d: "dom (map_of obj1) = dom (map_of obj)" by (simp add: dom_addRelationship)
  from Cons.IH[OF t] m h d show ?case by simp
qed

lemma addRelationshipsJS_Inl:
  "addRelationshipsJS rs obj = Inl e \<Longrightarrow>
   \<exists>r\<in>set rs. rel_source r \<noteq> [] \<and> rel_target r \<noteq> [] \<and>
     (inheritedFor (dom (map_of obj)) (rel_source r) \<or>
      inheritedFor (dom (map_of obj)) (rel_target r))"
proof (induction rs arbitrary: obj)
  case Nil
  then show ?case by simp
next
  case (Cons r rs)
  show ?case
  proof (cases "addRelationshipJS r obj")
    case (Inl e')
    from addRelationshipJS_Inl[OF this] show ?thesis by simp
  next
    case (Inr obj1)
    with Cons.prems have t: "addRelationshipsJS rs obj1 = Inl e" by simp
    from addRelationshipJS_Inr[OF Inr] have "dom (map_of obj1) = dom (map_of obj)"
      by (simp add: dom_addRelationship)
    with Cons.IH[OF t] show ?thesis by auto
  qed
qed

text \<open>
  When the construction of the object returns, its own entries are the map
  \<open>buildAdjacencyMap\<close>, and no relationship that is not skipped names an inherited
  property. It throws exactly when such a relationship exists.
\<close>

lemma buildAdjacencyMapJS_Inr:
  assumes "buildAdjacencyMapJS ds = Inr obj"
  shows "map_of obj = buildAdjacencyMap ds"
    and "\<forall>r\<in>set (relationships ds). rel_source r \<noteq> [] \<and> rel_target r \<noteq> [] \<longrightarrow>
           \<not> inheritedFor (entity_id ` set (entities ds)) (rel_source r) \<and>
           \<not> inheritedFor (entity_id ` set (entities ds)) (rel_target r)"
  using addRelationshipsJS_Inr[OF assms[unfolded buildAdjacencyMapJS_def]]
  by (simp_all add: map_of_fold_initEntityJS buildAdjacencyMap_def dom_fold_initEntity)

lemma buildAdjacencyMapJS_throws:
  "buildAdjacencyMapJS ds = Inl TypeError \<longleftrightarrow>
   (\<exists>r\<in>set (relationships ds). rel_source r \<noteq> [] \<and> rel_target r \<noteq> [] \<and>
      (inheritedFor (entity_id ` set (entities ds)) (rel_source r) \<or>
       inheritedFor (entity_id ` set (entities ds)) (rel_target r)))"
proof (cases "buildAdjacencyMapJS ds")
  case (Inl e)
  then have "e = TypeError" by (cases e) simp
  with Inl addRelationshipsJS_Inl[OF Inl[unfolded buildAdjacencyMapJS_def]]
  show ?thesis by (simp add: map_of_fold_initEntityJS dom_fold_initEntity)
next
  case (Inr obj)
  with buildAdjacencyMapJS_Inr(2)[OF Inr] show ?thesis by auto
qed

lemma pads_readAdjacency: "pads (readAdjacency obj) (map_of obj)"
  by (auto simp: pads_def readAdjacency_def getProperty_cases split: option.splits)

section \<open>Impact analysis reads the object as it reads the map\<close>

lemma processLayer_pads:
  "pads adj' adj \<Longrightarrow> processLayer adj' p layer acc = processLayer adj p layer acc"
proof (induction layer arbitrary: acc)
  case Nil
  then show ?case by simp
next
  case (Cons n ns)
  obtain st nl where acc: "acc = (st, nl)" by (cases acc)
  from Cons.prems have "adj' n = adj n \<or> (adj n = None \<and> adj' n = Some \<lparr>outgoing = [], incoming = []\<rparr>)"
    by (simp add: pads_def)
  then show ?case
  proof
    assume "adj' n = adj n"
    with Cons acc show ?thesis by (simp split: option.splits)
  next
    assume "adj n = None \<and> adj' n = Some \<lparr>outgoing = [], incoming = []\<rparr>"
    with Cons acc show ?thesis by simp
  qed
qed

lemma findIndirectImpacts_pads:
  "pads adj' adj \<Longrightarrow>
   findIndirectImpacts adj' layer st d m p = findIndirectImpacts adj layer st d m p"
proof (induction adj layer st d m p rule: findIndirectImpacts.induct)
  case (1 adj layer st d m p)
  obtain st' nl where pl: "processLayer adj p layer (st, []) = (st', nl)"
    by (cases "processLayer adj p layer (st, [])")
  with processLayer_pads[OF "1.prems"] have pl': "processLayer adj' p layer (st, []) = (st', nl)"
    by simp
  show ?case
  proof (cases "d \<ge> m")
    case True
    then show ?thesis by (simp add: findIndirectImpacts.simps)
  next
    case False
    show ?thesis
    proof (cases "nl = []")
      case True
      with False pl pl' show ?thesis by (simp add: findIndirectImpacts.simps)
    next
      case nonempty: False
      from "1.IH"[OF False pl[symmetric] nonempty "1.prems"] False pl pl' nonempty
      show ?thesis
        by (simp add: findIndirectImpacts.simps[of adj layer st d m p]
            findIndirectImpacts.simps[of adj' layer st d m p])
    qed
  qed
qed

lemma findIndirectImpacts_empty: "findIndirectImpacts adj [] st d m p = st"
  by (simp add: findIndirectImpacts.simps)

lemma processSources_pads:
  "pads adj' adj \<Longrightarrow> processSources adj' m srcs st = processSources adj m srcs st"
proof (induction srcs arbitrary: st)
  case Nil
  then show ?case by simp
next
  case (Cons s ss)
  from Cons.prems have "adj' s = adj s \<or> (adj s = None \<and> adj' s = Some \<lparr>outgoing = [], incoming = []\<rparr>)"
    by (simp add: pads_def)
  then show ?case
  proof
    assume "adj' s = adj s"
    with Cons show ?thesis
      by (simp add: findIndirectImpacts_pads split: option.splits)
  next
    assume "adj s = None \<and> adj' s = Some \<lparr>outgoing = [], incoming = []\<rparr>"
    with Cons show ?thesis by (simp add: findIndirectImpacts_empty)
  qed
qed

lemma analyzeImpactJS_returns:
  "analyzeImpactJS ds sourceIds maxDepth = Inr res \<Longrightarrow> res = analyzeImpact ds sourceIds maxDepth"
proof -
  assume r: "analyzeImpactJS ds sourceIds maxDepth = Inr res"
  then obtain obj where obj: "buildAdjacencyMapJS ds = Inr obj"
    by (auto simp: analyzeImpactJS_def split: sum.splits)
  have "processSources (readAdjacency obj) maxDepth sourceIds st =
        processSources (buildAdjacencyMap ds) maxDepth sourceIds st" for st
    using processSources_pads[OF pads_readAdjacency[of obj]] buildAdjacencyMapJS_Inr(1)[OF obj]
    by simp
  with r obj show ?thesis
    by (simp add: analyzeImpactJS_def analyzeImpact_def impactState_def Let_def)
qed

section \<open>Path analysis with an integer bound reads the object as it reads the map\<close>

lemma outgoingOfJS_map_of: "outgoingOfJS obj k = outgoingOf (map_of obj) k"
  by (simp add: outgoingOfJS_def outgoingOf_def getProperty_cases split: option.splits)

lemma findAllPathsJS_integer:
  "findAllPathsJS obj c t currentPath currentEdges visited allPaths (Finite (of_int L)) =
   findAllPaths (map_of obj) c t currentPath currentEdges visited allPaths L"
  and tryConnectionsJS_integer:
  "tryConnectionsJS obj os t currentPath currentEdges visited allPaths (Finite (of_int L)) =
   tryConnections (map_of obj) os t currentPath currentEdges visited allPaths L"
proof (induction "map_of obj" c t currentPath currentEdges visited allPaths L
         and "map_of obj" os t currentPath currentEdges visited allPaths L
       rule: findAllPaths_tryConnections.induct)
  case (1 c t currentPath currentEdges visited allPaths L)
  show ?case
  proof (cases "c = t \<or> L \<le> int (length currentPath)")
    case True
    then show ?thesis
      by (auto simp: findAllPathsJS.simps findAllPaths.simps lengthGE_integer)
  next
    case False
    with 1 show ?thesis
      by (simp add: findAllPathsJS.simps[of obj c t] findAllPaths.simps[of "map_of obj" c t]
          lengthGE_integer outgoingOfJS_map_of)
  qed
next
  case (2 t currentPath currentEdges visited allPaths L)
  then show ?case by (simp add: tryConnectionsJS.simps tryConnections.simps)
next
  case (3 edge rest t currentPath currentEdges visited allPaths L)
  then show ?case
    by (simp add: tryConnectionsJS.simps tryConnections.simps)
qed

lemma findAllPaths_noEdgeTo:
  "noEdgeTo adj t \<Longrightarrow> c \<noteq> t \<Longrightarrow>
   findAllPaths adj c t currentPath currentEdges visited allPaths L = allPaths"
  and tryConnections_noEdgeTo:
  "noEdgeTo adj t \<Longrightarrow> t \<notin> target ` set os \<Longrightarrow>
   tryConnections adj os t currentPath currentEdges visited allPaths L = allPaths"
proof (induction adj c t currentPath currentEdges visited allPaths L
         and adj os t currentPath currentEdges visited allPaths L
       rule: findAllPaths_tryConnections.induct)
  case (1 adj c t currentPath currentEdges visited allPaths L)
  show ?case
  proof (cases "L \<le> int (length currentPath)")
    case True
    with "1.prems" show ?thesis by (simp add: findAllPaths.simps)
  next
    case False
    from "1.prems"(1) have "t \<notin> target ` set (outgoingOf adj c)"
      by (simp add: noEdgeTo_def)
    from "1.IH"[OF "1.prems"(2) False "1.prems"(1) this] "1.prems"(2) False
    show ?thesis by (simp add: findAllPaths.simps[of adj c t])
  qed
next
  case (2 adj t currentPath currentEdges visited allPaths L)
  then show ?case by (simp add: tryConnections.simps)
next
  case (3 adj edge rest t currentPath currentEdges visited allPaths L)
  from "3.prems"(2) have ne: "target edge \<noteq> t" and rest: "t \<notin> target ` set rest" by auto
  show ?case
  proof (cases "target edge \<in> visited")
    case True
    from "3.IH"(1)[OF True "3.prems"(1) rest] True show ?thesis
      by (simp add: tryConnections.simps)
  next
    case False
    from "3.IH"(2)[OF False "3.prems"(1) ne]
    have found: "findAllPaths adj (target edge) t (currentPath @ [target edge])
                   (currentEdges @ [edgeId edge]) (insert (target edge) visited) allPaths L
                 = allPaths" .
    from "3.IH"(3)[OF False "3.prems"(1) rest] found False
    show ?thesis by (simp add: tryConnections.simps)
  qed
qed

lemma noEdgeTo_inherited:
  assumes "buildAdjacencyMapJS ds = Inr obj"
    and "inheritedFor (entity_id ` set (entities ds)) t"
  shows "noEdgeTo (buildAdjacencyMap ds) t"
  unfolding noEdgeTo_def
proof
  fix k
  show "t \<notin> target ` set (outgoingOf (buildAdjacencyMap ds) k)"
  proof
    assume "t \<in> target ` set (outgoingOf (buildAdjacencyMap ds) k)"
    then obtain r where "r \<in> set (relationships ds)" "usable k r" "rel_target r = t"
      by (auto simp: outgoingOf_buildAdjacencyMap mkOut_def split: if_splits)
    with buildAdjacencyMapJS_Inr(2)[OF assms(1)] assms(2) show False
      by (auto simp: usable_def)
  qed
qed

lemma findAllPaths_no_outgoing:
  "s \<noteq> t \<Longrightarrow> outgoingOf adj s = [] \<Longrightarrow> findAllPaths adj s t p es v allPaths L = allPaths"
  by (simp add: findAllPaths.simps tryConnections.simps)

lemma pathsForTargetsJS_integer:
  assumes "\<forall>t. inheritedFor (dom (map_of obj)) t \<longrightarrow> noEdgeTo (map_of obj) t"
  shows "pathsForTargetsJS obj (Finite (of_int L)) s tgts ps =
         pathsForTargets (map_of obj) L s tgts ps"
proof (induction tgts arbitrary: ps)
  case Nil
  then show ?case by simp
next
  case (Cons t tgts)
  show ?case
  proof (cases "s = t")
    case True
    with Cons show ?thesis by simp
  next
    case False
    have step: "(if getProperty obj s = Undefined \<or> getProperty obj t = Undefined then ps
                 else findAllPathsJS obj s t [s] [] {s} ps (Finite (of_int L))) =
                (if map_of obj s = None \<or> map_of obj t = None then ps
                 else findAllPaths (map_of obj) s t [s] [] {s} ps L)"
    proof (cases "map_of obj s")
      case None
      then have "outgoingOf (map_of obj) s = []" by (simp add: outgoingOf_def)
      from findAllPaths_no_outgoing[OF False this] None show ?thesis
        by (simp add: findAllPathsJS_integer)
    next
      case (Some a)
      show ?thesis
      proof (cases "map_of obj t")
        case None
        show ?thesis
        proof (cases "inheritedFor (dom (map_of obj)) t")
          case True
          with assms have "noEdgeTo (map_of obj) t" by simp
          from findAllPaths_noEdgeTo[OF this False] None show ?thesis
            by (simp add: findAllPathsJS_integer)
        next
          case notInherited: False
          with None show ?thesis by (simp add: getProperty_cases)
        qed
      next
        case (Some b)
        with \<open>map_of obj s = Some a\<close> show ?thesis
          by (simp add: getProperty_cases findAllPathsJS_integer)
      qed
    qed
    have "pathsForTargetsJS obj (Finite (of_int L)) s (t # tgts) ps =
          pathsForTargetsJS obj (Finite (of_int L)) s tgts
            (if getProperty obj s = Undefined \<or> getProperty obj t = Undefined then ps
             else findAllPathsJS obj s t [s] [] {s} ps (Finite (of_int L)))"
      using False by simp
    moreover have "pathsForTargets (map_of obj) L s (t # tgts) ps =
          pathsForTargets (map_of obj) L s tgts
            (if map_of obj s = None \<or> map_of obj t = None then ps
             else findAllPaths (map_of obj) s t [s] [] {s} ps L)"
      using False by simp
    ultimately show ?thesis by (simp only: step Cons.IH)
  qed
qed

lemma pathsForSourcesJS_integer:
  assumes "\<forall>t. inheritedFor (dom (map_of obj)) t \<longrightarrow> noEdgeTo (map_of obj) t"
  shows "pathsForSourcesJS obj (Finite (of_int L)) srcs tgts ps =
         pathsForSources (map_of obj) L srcs tgts ps"
  by (induction srcs arbitrary: ps) (simp_all add: pathsForTargetsJS_integer[OF assms])

lemma findPathsJS_returns:
  assumes "findPathsJS ds sourceIds targetIds (Finite (of_int L)) = Inr res"
  shows "res = findPaths ds sourceIds targetIds L"
proof -
  from assms obtain obj where obj: "buildAdjacencyMapJS ds = Inr obj"
    by (auto simp: findPathsJS_def split: sum.splits)
  note m = buildAdjacencyMapJS_Inr(1)[OF obj]
  have "\<forall>t. inheritedFor (dom (map_of obj)) t \<longrightarrow> noEdgeTo (map_of obj) t"
    using noEdgeTo_inherited[OF obj] by (simp add: m dom_buildAdjacencyMap)
  from pathsForSourcesJS_integer[OF this, of L sourceIds targetIds "[]"] assms obj
  show ?thesis
    by (simp add: findPathsJS_def findPaths_def Let_def m)
qed

text \<open>On the runs that return, no source gives the empty result with all metrics zero.\<close>

lemma analyzeImpactJS_no_source:
  "analyzeImpactJS ds [] maxDepth = Inr res \<Longrightarrow>
   res = \<lparr>directImpact = [], indirectImpact = [],
          impactMetrics = \<lparr>totalImpactedNodes = 0, observedMaxDepth = 0, criticalPaths = 0\<rparr>\<rparr>"
  by (auto simp: analyzeImpactJS_def split: sum.splits)

text \<open>
  Claim C3. For every dataset, list of sources and depth, the direct and the indirect
  impact of \<open>analyzeImpact\<close> have no repeated id, share no id, and hold no source.
\<close>

theorem impact_disjoint:
  "distinct (directImpact (analyzeImpact ds sourceIds maxDepth)) \<and>
   distinct (indirectImpact (analyzeImpact ds sourceIds maxDepth)) \<and>
   set (directImpact (analyzeImpact ds sourceIds maxDepth)) \<inter>
     set (indirectImpact (analyzeImpact ds sourceIds maxDepth)) = {} \<and>
   set (directImpact (analyzeImpact ds sourceIds maxDepth)) \<inter> set sourceIds = {} \<and>
   set (indirectImpact (analyzeImpact ds sourceIds maxDepth)) \<inter> set sourceIds = {}"
  using impactState_inv[of sourceIds ds maxDepth]
  by (auto simp: analyzeImpact_def Let_def impactInv_def)

text \<open>
  Claim C1, as stated, fails. In the dataset with the edges \<open>A \<rightarrow> X\<close>, \<open>X \<rightarrow> Y\<close> and
  \<open>B \<rightarrow> Y\<close> and the sources \<open>[A, B]\<close>, the node \<open>Y\<close> is an outgoing neighbour of the
  source \<open>B\<close> and not a source, yet it is reported as indirect impact: the expansion of
  \<open>A\<close> reaches it before \<open>B\<close> is processed. With the sources in the order \<open>[B, A]\<close>
  it is direct impact.
\<close>

theorem impact_per_source_counterexample:
  "''B'' \<in> set [''A'', ''B''] \<and>
   ''Y'' \<in> target ` set (outgoingOf (buildAdjacencyMap sharedNeighbourDataset) ''B'') \<and>
   ''Y'' \<notin> set [''A'', ''B''] \<and>
   ''Y'' \<in> entity_id ` set (entities sharedNeighbourDataset) \<and>
   ''Y'' \<notin> set (directImpact (analyzeImpact sharedNeighbourDataset [''A'', ''B''] 5)) \<and>
   ''Y'' \<in> set (indirectImpact (analyzeImpact sharedNeighbourDataset [''A'', ''B''] 5)) \<and>
   directImpact (analyzeImpact sharedNeighbourDataset [''B'', ''A''] 5) = [''Y'', ''X'']"
  by (simp add: eval_defs sharedNeighbourDataset_def)

text \<open>
  Claim C1, amended. \<open>analyzeImpact\<close> finishes the indirect expansion of one source before
  it takes the direct neighbours of the next. Every outgoing neighbour of a source that is
  not itself a source appears in exactly one of \<open>directImpact\<close> and \<open>indirectImpact\<close>;
  it appears in \<open>directImpact\<close> when \<open>maxDepth \<le> 1\<close> (no indirect expansion runs) or
  when it is a neighbour of the first source of the list.
\<close>

theorem impact_per_source:
  assumes "s \<in> set sourceIds"
    and "n \<in> target ` set (outgoingOf (buildAdjacencyMap ds) s)"
    and "n \<notin> set sourceIds"
  shows "(n \<in> set (directImpact (analyzeImpact ds sourceIds maxDepth)) \<or>
          n \<in> set (indirectImpact (analyzeImpact ds sourceIds maxDepth))) \<and>
         \<not> (n \<in> set (directImpact (analyzeImpact ds sourceIds maxDepth)) \<and>
            n \<in> set (indirectImpact (analyzeImpact ds sourceIds maxDepth))) \<and>
         (maxDepth \<le> 1 \<or> s = hd sourceIds \<longrightarrow>
            n \<in> set (directImpact (analyzeImpact ds sourceIds maxDepth)))"
proof -
  let ?st = "impactState ds sourceIds maxDepth"
  let ?init = "\<lparr>st_direct = [], st_indirect = [],
               st_visited = fold insert sourceIds {}, st_critical = []\<rparr>"
  have inv: "impactInv (set sourceIds) ?st" by (rule impactState_inv)
  have "n \<in> st_visited ?st"
    using processSources_neighbours[OF assms(1), of "buildAdjacencyMap ds" maxDepth ?init] assms(2)
    by (auto simp: impactState_def)
  with inv assms(3) have one: "n \<in> set (st_direct ?st) \<or> n \<in> set (st_indirect ?st)"
    by (auto simp: impactInv_def)
  from inv have notboth: "\<not> (n \<in> set (st_direct ?st) \<and> n \<in> set (st_indirect ?st))"
    by (auto simp: impactInv_def)
  have shallow: "n \<in> set (st_direct ?st)" if "maxDepth \<le> 1"
  proof -
    have "st_indirect ?st = []"
      using processSources_shallow[OF that, of "buildAdjacencyMap ds" sourceIds ?init]
      by (simp add: impactState_def)
    with one show ?thesis by simp
  qed
  have first: "n \<in> set (st_direct ?st)" if "s = hd sourceIds"
  proof -
    from assms(1) that obtain rest where srcs: "sourceIds = s # rest"
      by (cases sourceIds) auto
    have "n \<notin> st_visited ?init" using assms(3) by (simp add: fold_insert_set)
    with assms(2) processSources_first[of "buildAdjacencyMap ds" s ?init maxDepth rest]
    show ?thesis unfolding impactState_def srcs[symmetric] by auto
  qed
  from one notboth shallow first show ?thesis
    by (auto simp: analyzeImpact_def Let_def)
qed

theorem impact_per_source_witness:
  "''A'' \<in> set [''A'', ''B''] \<and>
   ''X'' \<in> target ` set (outgoingOf (buildAdjacencyMap sharedNeighbourDataset) ''A'') \<and>
   ''X'' \<notin> set [''A'', ''B''] \<and> ((1::int) \<le> 1 \<or> ''A'' = hd [''A'', ''B'']) \<and>
   ''X'' \<in> set (directImpact (analyzeImpact sharedNeighbourDataset [''A'', ''B''] 1)) \<and>
   ''X'' \<notin> set (indirectImpact (analyzeImpact sharedNeighbourDataset [''A'', ''B''] 1))"
proof -
  have a: "''A'' \<in> set [''A'', ''B'']" by simp
  have b: "''X'' \<in> target ` set (outgoingOf (buildAdjacencyMap sharedNeighbourDataset) ''A'')"
    by (simp add: eval_defs sharedNeighbourDataset_def)
  have c: "''X'' \<notin> set [''A'', ''B'']" by simp
  from impact_per_source[OF a b c, of 1] a b c show ?thesis by simp
qed

text \<open>
  Claim C2, as stated, fails in its last part. On the dataset of scenario C the direct
  impact is \<open>[2, 3, 4, 5, 6, 7]\<close> and the indirect impact is empty, but no critical path
  is recorded: the fan-out test is applied to the nodes of the layers only, never to a
  source, and the nodes \<open>2\<close> to \<open>7\<close> have no outgoing edge.
\<close>

theorem fan_out_source_counterexample:
  "directImpact (analyzeImpact fanOutDataset [''1''] 5) = [''2'', ''3'', ''4'', ''5'', ''6'', ''7''] \<and>
   indirectImpact (analyzeImpact fanOutDataset [''1''] 5) = [] \<and>
   length (outgoingOf (buildAdjacencyMap fanOutDataset) ''1'') = 6 \<and>
   \<not> criticalPaths (impactMetrics (analyzeImpact fanOutDataset [''1''] 5)) \<ge> 1"
  by (simp add: eval_defs fanOutDataset_def)

text \<open>
  Claim C2, amended. On every dataset with the entity ids \<open>1\<close> to \<open>7\<close> and the six
  relationships from \<open>1\<close> to \<open>2, \<dots>, 7\<close> in this order, \<open>analyzeImpact ds [1] 5\<close> returns
  the direct impact \<open>[2, 3, 4, 5, 6, 7]\<close>, no indirect impact, and \<open>criticalPaths = 0\<close>.
\<close>

theorem fan_out_source:
  assumes "map entity_id (entities ds) = [''1'', ''2'', ''3'', ''4'', ''5'', ''6'', ''7'']"
    and "map (\<lambda>r. (rel_source r, rel_target r)) (relationships ds) =
           [(''1'', ''2''), (''1'', ''3''), (''1'', ''4''), (''1'', ''5''), (''1'', ''6''), (''1'', ''7'')]"
  shows "directImpact (analyzeImpact ds [''1''] 5) = [''2'', ''3'', ''4'', ''5'', ''6'', ''7''] \<and>
         indirectImpact (analyzeImpact ds [''1''] 5) = [] \<and>
         criticalPaths (impactMetrics (analyzeImpact ds [''1''] 5)) = 0"
proof -
  from assms(1) obtain e1 e2 e3 e4 e5 e6 e7 where
    es: "entities ds = [e1, e2, e3, e4, e5, e6, e7]"
      "entity_id e1 = ''1''" "entity_id e2 = ''2''" "entity_id e3 = ''3''" "entity_id e4 = ''4''"
      "entity_id e5 = ''5''" "entity_id e6 = ''6''" "entity_id e7 = ''7''"
    by (auto simp: map_eq_Cons_conv)
  from assms(2) obtain r2 r3 r4 r5 r6 r7 where
    rs: "relationships ds = [r2, r3, r4, r5, r6, r7]"
      "rel_source r2 = ''1''" "rel_target r2 = ''2''" "rel_source r3 = ''1''" "rel_target r3 = ''3''"
      "rel_source r4 = ''1''" "rel_target r4 = ''4''" "rel_source r5 = ''1''" "rel_target r5 = ''5''"
      "rel_source r6 = ''1''" "rel_target r6 = ''6''" "rel_source r7 = ''1''" "rel_target r7 = ''7''"
    by (auto simp: map_eq_Cons_conv)
  show ?thesis
    by (simp add: eval_defs es rs)
qed

theorem fan_out_source_witness:
  "map entity_id (entities fanOutDataset) = [''1'', ''2'', ''3'', ''4'', ''5'', ''6'', ''7''] \<and>
   directImpact (analyzeImpact fanOutDataset [''1''] 5) = [''2'', ''3'', ''4'', ''5'', ''6'', ''7''] \<and>
   indirectImpact (analyzeImpact fanOutDataset [''1''] 5) = [] \<and>
   criticalPaths (impactMetrics (analyzeImpact fanOutDataset [''1''] 5)) = 0"
proof -
  have e: "map entity_id (entities fanOutDataset) = [''1'', ''2'', ''3'', ''4'', ''5'', ''6'', ''7'']"
    by (simp add: fanOutDataset_def ent_def)
  have r: "map (\<lambda>r. (rel_source r, rel_target r)) (relationships fanOutDataset) =
           [(''1'', ''2''), (''1'', ''3''), (''1'', ''4''), (''1'', ''5''), (''1'', ''6''), (''1'', ''7'')]"
    by (simp add: fanOutDataset_def rel_def)
  from fan_out_source[OF e r] e show ?thesis by simp
qed

text \<open>
  Claim C5. On every dataset with the entity ids \<open>1, 2, 3\<close> and the two relationships
  \<open>1 \<rightarrow> 2\<close> and \<open>2 \<rightarrow> 3\<close>, \<open>findPaths ds [1] [3] 10\<close> returns exactly one path, with the
  nodes \<open>[1, 2, 3]\<close>, and the metrics count nodes: one path, shortest and longest \<open>3\<close>.
\<close>

theorem chain_paths:
  assumes "map entity_id (entities ds) = [''1'', ''2'', ''3'']"
    and "map (\<lambda>r. (rel_source r, rel_target r)) (relationships ds) = [(''1'', ''2''), (''2'', ''3'')]"
  shows "map nodes (paths (findPaths ds [''1''] [''3''] 10)) = [[''1'', ''2'', ''3'']] \<and>
         map edges (paths (findPaths ds [''1''] [''3''] 10)) = [map rel_id (relationships ds)] \<and>
         metrics (findPaths ds [''1''] [''3''] 10) =
           \<lparr>totalPaths = 1, shortestPathLength = 3, longestPathLength = 3\<rparr>"
proof -
  from assms(1) obtain e1 e2 e3 where
    es: "entities ds = [e1, e2, e3]"
      "entity_id e1 = ''1''" "entity_id e2 = ''2''" "entity_id e3 = ''3''"
    by (auto simp: map_eq_Cons_conv)
  from assms(2) obtain r1 r2 where
    rs: "relationships ds = [r1, r2]"
      "rel_source r1 = ''1''" "rel_target r1 = ''2''" "rel_source r2 = ''2''" "rel_target r2 = ''3''"
    by (auto simp: map_eq_Cons_conv)
  show ?thesis
    by (simp add: eval_defs es rs findAllPaths.simps tryConnections.simps)
qed

theorem chain_paths_witness:
  "map entity_id (entities chainDataset) = [''1'', ''2'', ''3''] \<and>
   map nodes (paths (findPaths chainDataset [''1''] [''3''] 10)) = [[''1'', ''2'', ''3'']] \<and>
   metrics (findPaths chainDataset [''1''] [''3''] 10) =
     \<lparr>totalPaths = 1, shortestPathLength = 3, longestPathLength = 3\<rparr>"
proof -
  have e: "map entity_id (entities chainDataset) = [''1'', ''2'', ''3'']"
    by (simp add: chainDataset_def ent_def)
  have r: "map (\<lambda>r. (rel_source r, rel_target r)) (relationships chainDataset) =
             [(''1'', ''2''), (''2'', ''3'')]"
    by (simp add: chainDataset_def rel_def)
  from chain_paths[OF e r] e show ?thesis by simp
qed

text \<open>
  Claim C10. With no source and at least one target, \<open>filterDataset\<close> returns the
  dataset it was given: neither the path branch nor the impact branch applies.
\<close>

theorem filter_targets_only:
  "targetIds \<noteq> [] \<Longrightarrow> filterDataset ds [] targetIds maxDepth = ds"
  by (simp add: filterDataset_def)

theorem filter_targets_only_witness:
  "[''3''] \<noteq> [] \<and> filterDataset chainDataset [] [''3''] 5 = chainDataset"
  using filter_targets_only[of "[''3'']" chainDataset 5] by simp

text \<open>
  Claim C7. The dataset that \<open>buildDataset\<close> returns does not depend on the colour table
  a former call left, so a second call with the same input returns the same entities and
  relationships. Entity ids and relationship ids occur once. The entities are the
  candidate entities of all classes and rows, first occurrence of an id winning, and the
  relationships are the candidate relationships, first occurrence of an id winning. A
  row that repeats an earlier row changes nothing.
\<close>

theorem buildDataset_dedup:
  "fst (buildDataset typeColorMap' rawData mapping) = fst (buildDataset typeColorMap rawData mapping) \<and>
   distinct (map entity_id (entities (fst (buildDataset typeColorMap rawData mapping)))) \<and>
   distinct (map rel_id (relationships (fst (buildDataset typeColorMap rawData mapping)))) \<and>
   entities (fst (buildDataset typeColorMap rawData mapping)) =
     firstBy entity_id {} (entityCandidates rawData (mapping_classes mapping)) \<and>
   relationships (fst (buildDataset typeColorMap rawData mapping)) =
     firstBy rel_id {}
       (relationshipCandidates
          (entity_id ` set (entities (fst (buildDataset typeColorMap rawData mapping))))
          rawData (mapping_relationships mapping)) \<and>
   (row \<in> set xs \<longrightarrow>
      fst (buildDataset typeColorMap (rawData\<lparr>rows := xs @ row # ys\<rparr>) mapping) =
      fst (buildDataset typeColorMap (rawData\<lparr>rows := xs @ ys\<rparr>) mapping))"
proof -
  have "distinct (map entity_id (bs_entities (buildState rawData mapping)))"
    by (simp only: buildState_entities distinct_firstBy)
  moreover have "distinct (map rel_id (bs_relationships (buildState rawData mapping)))"
    by (subst buildState_relationships) (rule distinct_firstBy)
  moreover note buildState_entities[of rawData mapping] buildState_relationships[of rawData mapping]
    buildState_repeated[where r = row and xs = xs and ys = ys and rawData = rawData
      and mapping = mapping]
  ultimately show ?thesis
    by (simp add: buildDataset_def Let_def)
qed

theorem buildDataset_dedup_witness:
  "aliceRow \<in> set [aliceRow] \<and>
   map (\<lambda>e. (entity_id e, entity_label e))
     (entities (fst (buildDataset initialTypeColorMap
        \<lparr>columns = [''id'', ''name''], rows = [aliceRow] @ aliceRow # [alice2Row]\<rparr>
        scenarioMapping))) = [(''class:e1'', ''Alice'')]"
proof -
  have m: "aliceRow \<in> set [aliceRow]" by simp
  have "map (\<lambda>e. (entity_id e, entity_label e))
     (entities (fst (buildDataset initialTypeColorMap
        (\<lparr>columns = [''id'', ''name''], rows = []\<rparr>\<lparr>rows := [aliceRow] @ [alice2Row]\<rparr>)
        scenarioMapping))) = [(''class:e1'', ''Alice'')]"
    by (simp add: build_defs Let_def aliceRow_def alice2Row_def)
  with buildDataset_dedup[of initialTypeColorMap "\<lparr>columns = [''id'', ''name''], rows = []\<rparr>"
      scenarioMapping initialTypeColorMap aliceRow "[aliceRow]" "[alice2Row]"] m
  show ?thesis by simp
qed

text \<open>
  Claim C8. Every relationship of a built dataset has its source and its target among
  the ids of the built entities, and its source differs from its target.
\<close>

theorem buildDataset_integrity:
  "r \<in> set (relationships (fst (buildDataset typeColorMap rawData mapping))) \<Longrightarrow>
   rel_source r \<in> entity_id ` set (entities (fst (buildDataset typeColorMap rawData mapping))) \<and>
   rel_target r \<in> entity_id ` set (entities (fst (buildDataset typeColorMap rawData mapping))) \<and>
   rel_source r \<noteq> rel_target r"
proof -
  assume "r \<in> set (relationships (fst (buildDataset typeColorMap rawData mapping)))"
  then have "r \<in> set (bs_relationships (buildState rawData mapping))"
    by (simp add: buildDataset_def Let_def)
  then have "r \<in> set (relationshipCandidates
                (entity_id ` set (bs_entities (buildState rawData mapping)))
                rawData (mapping_relationships mapping))"
    using buildState_relationships[of rawData mapping]
      set_firstBy[of rel_id "{}" "relationshipCandidates
                (entity_id ` set (bs_entities (buildState rawData mapping)))
                rawData (mapping_relationships mapping)"]
    by auto
  from relationshipCandidates_sound[OF this] show ?thesis
    by (simp add: buildDataset_def Let_def)
qed

theorem buildDataset_integrity_witness:
  "map (\<lambda>r. (rel_id r, rel_source r, rel_target r))
     (relationships (fst (buildDataset initialTypeColorMap
        \<lparr>columns = [''id'', ''next''], rows = linkRows\<rparr> scenarioMapping))) =
     [(''link:a-b'', ''class:a'', ''class:b'')] \<and>
   ''class:a'' \<in> entity_id ` set (entities (fst (buildDataset initialTypeColorMap
        \<lparr>columns = [''id'', ''next''], rows = linkRows\<rparr> scenarioMapping))) \<and>
   ''class:b'' \<in> entity_id ` set (entities (fst (buildDataset initialTypeColorMap
        \<lparr>columns = [''id'', ''next''], rows = linkRows\<rparr> scenarioMapping)))"
proof -
  let ?D = "fst (buildDataset initialTypeColorMap
        \<lparr>columns = [''id'', ''next''], rows = linkRows\<rparr> scenarioMapping)"
  have rs: "relationships ?D =
     [\<lparr>rel_id = ''link:a-b'', rel_source = ''class:a'', rel_target = ''class:b'',
       rel_type = ''link'', rel_metadata = Map.empty\<rparr>]"
    by (simp add: build_defs Let_def linkRows_def)
  then have "\<lparr>rel_id = ''link:a-b'', rel_source = ''class:a'', rel_target = ''class:b'',
       rel_type = ''link'', rel_metadata = Map.empty\<rparr> \<in> set (relationships ?D)"
    by simp
  from buildDataset_integrity[OF this] rs show ?thesis by simp
qed

text \<open>
  Claim C6, as stated, fails: the result can hold a relationship whose endpoint is not
  among its entities. A dataset with a relationship to an id that is no entity keeps it
  when no filter is given and when only the source is given; a dataset in which two
  relationships share an id keeps both when one of them lies on a path.
\<close>

theorem filter_soundness_counterexample:
  "rel ''e1'' ''A'' ''Z'' \<in> set (relationships (filterDataset danglingDataset [] [] 5)) \<and>
   ''Z'' \<notin> entity_id ` set (entities (filterDataset danglingDataset [] [] 5)) \<and>
   rel ''e1'' ''A'' ''Z'' \<in> set (relationships (filterDataset danglingDataset [''A''] [] 5)) \<and>
   ''Z'' \<notin> entity_id ` set (entities (filterDataset danglingDataset [''A''] [] 5)) \<and>
   rel ''e1'' ''C'' ''A'' \<in> set (relationships (filterDataset repeatedIdDataset [''A''] [''B''] 5)) \<and>
   ''C'' \<notin> entity_id ` set (entities (filterDataset repeatedIdDataset [''A''] [''B''] 5))"
  by (simp add: filterDataset_def eval_defs danglingDataset_def repeatedIdDataset_def
      nodeIdsInPaths_def edgeIdsInPaths_def findAllPaths.simps tryConnections.simps)

text \<open>
  Claim C6, amended. The entities and the relationships of \<open>filterDataset ds src tgt d\<close>
  are among those of \<open>ds\<close>. When the relationship ids of \<open>ds\<close> are unique and the
  endpoints of its relationships are entity ids, every relationship of the result has
  its source and its target among the ids of the entities of the result.
\<close>

theorem filter_soundness:
  "set (entities (filterDataset ds src tgt d)) \<subseteq> set (entities ds) \<and>
   set (relationships (filterDataset ds src tgt d)) \<subseteq> set (relationships ds) \<and>
   (wellFormedDataset ds \<longrightarrow>
      (\<forall>r\<in>set (relationships (filterDataset ds src tgt d)).
         rel_source r \<in> entity_id ` set (entities (filterDataset ds src tgt d)) \<and>
         rel_target r \<in> entity_id ` set (entities (filterDataset ds src tgt d))))"
  using filterDataset_subset[of ds src tgt d] filterDataset_endpoints[of ds _ src tgt d]
  by blast

theorem filter_soundness_witness:
  "wellFormedDataset branchDataset \<and>
   map entity_id (entities (filterDataset branchDataset [''1''] [''3''] 5)) = [''1'', ''2'', ''3''] \<and>
   map rel_id (relationships (filterDataset branchDataset [''1''] [''3''] 5)) = [''e1'', ''e2''] \<and>
   rel_source (rel ''e2'' ''2'' ''3'')
     \<in> entity_id ` set (entities (filterDataset branchDataset [''1''] [''3''] 5)) \<and>
   rel_target (rel ''e2'' ''2'' ''3'')
     \<in> entity_id ` set (entities (filterDataset branchDataset [''1''] [''3''] 5))"
proof -
  have wf: "wellFormedDataset branchDataset"
    by (simp add: wellFormedDataset_def branchDataset_def ent_def rel_def)
  have ents: "map entity_id (entities (filterDataset branchDataset [''1''] [''3''] 5)) =
                [''1'', ''2'', ''3'']"
    and rels: "relationships (filterDataset branchDataset [''1''] [''3''] 5) =
                [rel ''e1'' ''1'' ''2'', rel ''e2'' ''2'' ''3'']"
    by (simp_all add: filterDataset_def eval_defs branchDataset_def
        nodeIdsInPaths_def edgeIdsInPaths_def findAllPaths.simps tryConnections.simps)
  from rels have "rel ''e2'' ''2'' ''3''
      \<in> set (relationships (filterDataset branchDataset [''1''] [''3''] 5))" by simp
  with filter_soundness[of branchDataset "[''1'']" "[''3'']" 5] wf
  have "rel_source (rel ''e2'' ''2'' ''3'')
     \<in> entity_id ` set (entities (filterDataset branchDataset [''1''] [''3''] 5)) \<and>
   rel_target (rel ''e2'' ''2'' ''3'')
     \<in> entity_id ` set (entities (filterDataset branchDataset [''1''] [''3''] 5))"
    by blast
  with wf ents rels show ?thesis by (simp add: rel_def)
qed

text \<open>
  Claim C4, as stated, fails for a bound that is not an integer. With \<open>NaN\<close>, which the
  caller passes for an empty field, the length test never cuts, and with \<open>2.5\<close> it cuts
  one node late: in both runs the path \<open>[1, 2, 3]\<close> is returned and \<open>3 <= L\<close> is false.
\<close>

theorem findPaths_bound_counterexample:
  "findPathsJS chainDataset [''1''] [''3''] NaN =
     Inr \<lparr>paths = [\<lparr>nodes = [''1'', ''2'', ''3''], edges = [''e1'', ''e2''],
                    metadata = \<lparr>md_length = 3, md_hops = 2\<rparr>\<rparr>],
          metrics = \<lparr>totalPaths = 1, shortestPathLength = 3, longestPathLength = 3\<rparr>\<rparr> \<and>
   \<not> lengthLE (length [''1'', ''2'', ''3'']) NaN \<and>
   findPathsJS chainDataset [''1''] [''3''] (Finite (5 / 2)) =
     Inr \<lparr>paths = [\<lparr>nodes = [''1'', ''2'', ''3''], edges = [''e1'', ''e2''],
                    metadata = \<lparr>md_length = 3, md_hops = 2\<rparr>\<rparr>],
          metrics = \<lparr>totalPaths = 1, shortestPathLength = 3, longestPathLength = 3\<rparr>\<rparr> \<and>
   \<not> lengthLE (length [''1'', ''2'', ''3'']) (Finite (5 / 2))"
  by (simp add: js_defs chainDataset_def)

text \<open>
  Claim C4, amended. For every dataset, lists of sources and targets and bound \<open>L\<close>, every
  path that \<open>findPaths\<close> returns has no repeated node and one edge less than nodes; when
  \<open>L\<close> is an integer, it has at most \<open>L\<close> nodes.
\<close>

theorem findPaths_wellFormed:
  "findPathsJS ds sourceIds targetIds L = Inr res \<Longrightarrow> p \<in> set (paths res) \<Longrightarrow>
   distinct (nodes p) \<and> length (nodes p) = length (edges p) + 1 \<and>
   length (edges p) = length (nodes p) - 1 \<and>
   (L = Finite (of_int k) \<longrightarrow> lengthLE (length (nodes p)) L)"
proof -
  assume res: "findPathsJS ds sourceIds targetIds L = Inr res" and p: "p \<in> set (paths res)"
  from res obtain obj where "paths res = pathsForSourcesJS obj L sourceIds targetIds []"
    by (auto simp: findPathsJS_def Let_def split: sum.splits)
  with p pathsForSourcesJS_wellFormed[of "[]" L obj sourceIds targetIds]
  have "wellFormedPathJS L p" by simp
  then show ?thesis
    by (auto simp: wellFormedPathJS_def lengthLE_integer)
qed

theorem findPaths_wellFormed_witness:
  "findPathsJS chainDataset [''1''] [''3''] (Finite (of_int 10)) =
     Inr \<lparr>paths = [\<lparr>nodes = [''1'', ''2'', ''3''], edges = [''e1'', ''e2''],
                    metadata = \<lparr>md_length = 3, md_hops = 2\<rparr>\<rparr>],
          metrics = \<lparr>totalPaths = 1, shortestPathLength = 3, longestPathLength = 3\<rparr>\<rparr> \<and>
   distinct [''1'', ''2'', ''3''] \<and> length [''1'', ''2'', ''3''] = length [''e1'', ''e2''] + 1 \<and>
   lengthLE (length [''1'', ''2'', ''3'']) (Finite (of_int 10))"
proof -
  let ?p = "\<lparr>nodes = [''1'', ''2'', ''3''], edges = [''e1'', ''e2''],
             metadata = \<lparr>md_length = 3, md_hops = 2\<rparr>\<rparr>"
  let ?res = "\<lparr>paths = [?p],
          metrics = \<lparr>totalPaths = 1, shortestPathLength = 3, longestPathLength = 3\<rparr>\<rparr>"
  have r: "findPathsJS chainDataset [''1''] [''3''] (Finite (of_int 10)) = Inr ?res"
    by (simp add: js_defs chainDataset_def)
  have m: "?p \<in> set (paths ?res)" by simp
  from findPaths_wellFormed[OF r m, of 10] r show ?thesis by simp
qed

text \<open>
  Claim C9 asks for the empty result and no exception when a required parameter is
  absent. The code breaks it on the dataset whose only relationship leads from the
  entity \<open>A\<close> to the id \<open>constructor\<close>, which is no entity: the construction of the
  adjacency object reads the inherited property, takes it for a known endpoint and
  throws, before the list of sources is read. Both functions fail with the \<open>TypeError\<close>,
  whatever the sources and targets.
\<close>

theorem inherited_key_throws:
  "analyzeImpactJS inheritedKeyDataset [] 5 = Inl TypeError \<and>
   findPathsJS inheritedKeyDataset [] [] (Finite 10) = Inl TypeError \<and>
   analyzeImpactJS inheritedKeyDataset sourceIds maxDepth = Inl TypeError \<and>
   findPathsJS inheritedKeyDataset sourceIds targetIds maxLength = Inl TypeError"
  by (simp add: js_defs inheritedKeyDataset_def)

end
